theory Spec2Isabelle
  imports Complex_Main
begin

section \<open>Joint intent and slot prediction: the model of \<^verbatim>\<open>models/jlu.py\<close> and \<^verbatim>\<open>predict.py\<close>\<close>

text \<open>
  Tensors are nested lists of reals (the idealisation of the float tensors of the
  source; rounding is not modelled), Python integers are \<open>int\<close>, lengths and ids are
  \<open>nat\<close>. Every exception of the source is a value of \<open>error\<close>, and a call that may
  raise returns \<open>error + 'a\<close> with \<open>Inl\<close> for the exception.
\<close>

subsection \<open>Errors and Python's list operations\<close>

datatype error =
    UnboundLocalError
  | IndexError
  | RuntimeError
  | ValueError
  | OSError
  | ModelLoadError
  | InvalidInputError
  | ShapeMismatchError
  | VocabularyExpansionError

text \<open>\<^verbatim>\<open>xs[i]\<close> for a non-negative index: out of range raises IndexError.\<close>

definition py_index :: "'a list \<Rightarrow> nat \<Rightarrow> error + 'a" where
  "py_index xs i = (if i < length xs then Inr (xs ! i) else Inl IndexError)"

text \<open>\<^verbatim>\<open>xs[:k]\<close>: a negative bound counts from the end, a bound beyond the end is clamped.\<close>

definition py_slice_to :: "int \<Rightarrow> 'a list \<Rightarrow> 'a list" where
  "py_slice_to k xs =
     (if 0 \<le> k then take (nat k) xs else take (length xs - nat (- k)) xs)"

text \<open>The first error of a list of results, or all the values.\<close>

fun collect :: "(error + 'a) list \<Rightarrow> error + 'a list" where
  "collect [] = Inr []"
| "collect (r # rs) =
     (case r of
        Inl e \<Rightarrow> Inl e
      | Inr x \<Rightarrow> (case collect rs of Inl e \<Rightarrow> Inl e | Inr xs \<Rightarrow> Inr (x # xs)))"

subsection \<open>The command line and the vocabularies\<close>

text \<open>
  Modelled from the spec: the vocabulary class (\<^verbatim>\<open>utils.Vocabulary\<close>) is not among the
  sources. A vocabulary maps tokens to ids and back; the sources only take its size
  (\<^verbatim>\<open>len(v)\<close>), so it is the list of its tokens, the id of a token being its position.
\<close>

type_synonym vocabulary = "string list"

record args =
  unk :: string
  eos :: string
  bos :: string
  ckpt_path :: string
  batch_size :: int
  save_dir :: string
  top_k :: int
  label_filename :: string
  label_probs_filename :: string
  intent_filename :: string
  intent_probs_filename :: string
  beam_size :: int
  expand_vocab :: bool
  args_hidden_dim :: int
  args_word_dim :: int

subsection \<open>\<^verbatim>\<open>RNNBasedJLU.__init__\<close>\<close>

text \<open>
  The embedding, recurrent, pooling and classifier modules are external
  (\<^verbatim>\<open>torchmodels\<close>, \<^verbatim>\<open>models/classifier.py\<close>); an instance of one is the record of
  the arguments it was constructed with.
\<close>

record embedding_module =
  emb_vocab_size :: nat
  emb_dim :: int

record rnn_module =
  rnn_input_dim :: int
  rnn_hidden_dim :: int

record pooling_module =
  pooling_dim :: int

record classifier_module =
  clf_hidden_dim :: int
  num_labels :: nat

record jlu =
  hidden_dim :: int
  word_dim :: int
  num_words :: nat
  num_slots :: nat
  num_intents :: nat
  vocab_sizes :: "nat list"
  embeds :: embedding_module
  rnn :: rnn_module
  pooling :: pooling_module
  slot_classifier :: classifier_module
  intent_classifier :: classifier_module
  model_beam_size :: "int option"

definition RNNBasedJLU_init :: "int \<Rightarrow> int \<Rightarrow> nat \<Rightarrow> nat \<Rightarrow> nat \<Rightarrow> jlu" where
  "RNNBasedJLU_init hdim wdim nw ns ni =
     \<lparr> hidden_dim = hdim, word_dim = wdim, num_words = nw, num_slots = ns, num_intents = ni,
       vocab_sizes = [nw, ns, ni],
       embeds = \<lparr> emb_vocab_size = nw, emb_dim = wdim \<rparr>,
       rnn = \<lparr> rnn_input_dim = wdim, rnn_hidden_dim = hdim \<rparr>,
       pooling = \<lparr> pooling_dim = hdim \<rparr>,
       slot_classifier = \<lparr> clf_hidden_dim = hdim, num_labels = ns + 1 \<rparr>,
       intent_classifier = \<lparr> clf_hidden_dim = hdim, num_labels = ni + 1 \<rparr>,
       model_beam_size = None \<rparr>"

subsection \<open>\<^verbatim>\<open>prepare_model\<close>\<close>

text \<open>
  \<^verbatim>\<open>torch.load\<close> and \<^verbatim>\<open>load_state_dict\<close> are external: \<open>load_checkpoint path mdl\<close>
  says whether the checkpoint at \<open>path\<close> loads into \<open>mdl\<close> (it changes weights only,
  which the configuration record does not hold). Where it does not, the code raises what
  these calls raise (RuntimeError, FileNotFoundError or KeyError): the one value
  ModelLoadError stands for all of them. The construction of the model
  (\<^verbatim>\<open>create_model_cls\<close>, \<^verbatim>\<open>reset_parameters\<close>) is taken to return. The body of the
  \<^verbatim>\<open>expand_vocab\<close> branch is \<^verbatim>\<open>pass\<close> (the rest is commented out), so the local
  \<^verbatim>\<open>vocab\<close> is assigned in the other branch only: it is an option here, and reading it
  unassigned at the \<^verbatim>\<open>return\<close> raises UnboundLocalError.
\<close>

definition prepare_model ::
  "(string \<Rightarrow> jlu \<Rightarrow> bool) \<Rightarrow> args \<Rightarrow> vocabulary list \<Rightarrow> error + (jlu \<times> vocabulary)" where
  "prepare_model load_checkpoint a vocabs =
     (case py_index vocabs 0 of Inl e \<Rightarrow> Inl e | Inr v0 \<Rightarrow>
      case py_index vocabs 1 of Inl e \<Rightarrow> Inl e | Inr v1 \<Rightarrow>
      case py_index vocabs 2 of Inl e \<Rightarrow> Inl e | Inr v2 \<Rightarrow>
        let mdl = RNNBasedJLU_init (args_hidden_dim a) (args_word_dim a)
                    (length v0) (length v1) (length v2)
        in if \<not> load_checkpoint (ckpt_path a) mdl then Inl ModelLoadError
           else
             let vocab = (if expand_vocab a then None else Some v0)
             in (case vocab of None \<Rightarrow> Inl UnboundLocalError | Some v \<Rightarrow> Inr (mdl, v)))"

subsection \<open>Tensor operations of \<^verbatim>\<open>torch\<close>\<close>

type_synonym tensor1 = "real list"
type_synonym tensor2 = "real list list"
type_synonym tensor3 = "real list list list"

text \<open>\<^verbatim>\<open>F.softmax\<close> and \<^verbatim>\<open>F.log_softmax\<close> along the last axis of one row.\<close>

definition softmax :: "tensor1 \<Rightarrow> tensor1" where
  "softmax xs = map (\<lambda>x. exp x / sum_list (map exp xs)) xs"

definition log_softmax :: "tensor1 \<Rightarrow> tensor1" where
  "log_softmax xs = map (\<lambda>x. x - ln (sum_list (map exp xs))) xs"

text \<open>
  \<^verbatim>\<open>torch.sort(x, 1, True)\<close> sorts every row in descending order and returns the
  sorted values and the indices they came from. It is called without \<^verbatim>\<open>stable=True\<close>,
  so \<^verbatim>\<open>torch\<close> leaves the order of equal elements open: the row sorter is a parameter
  \<open>srt\<close>, and \<open>sorts_descending srt\<close> is all that \<^verbatim>\<open>torch\<close> promises of it.
\<close>

definition sorted_desc_of :: "real list \<Rightarrow> real list \<times> nat list \<Rightarrow> bool" where
  "sorted_desc_of xs r =
     (distinct (snd r) \<and> set (snd r) = set [0..<length xs]
      \<and> fst r = map (\<lambda>i. xs ! i) (snd r) \<and> sorted_wrt (\<lambda>a b. b \<le> a) (fst r))"

definition sorts_descending :: "(real list \<Rightarrow> real list \<times> nat list) \<Rightarrow> bool" where
  "sorts_descending srt = (\<forall>xs. sorted_desc_of xs (srt xs))"

definition torch_sort ::
  "(real list \<Rightarrow> real list \<times> nat list) \<Rightarrow> tensor2 \<Rightarrow> tensor2 \<times> nat list list" where
  "torch_sort srt x = (map (\<lambda>row. fst (srt row)) x, map (\<lambda>row. snd (srt row)) x)"

text \<open>
  Two row sorters that keep the promise. The first puts the lower index first among
  equal values, in every row. The second does so in rows of at most 16 entries only (a
  sort that works by insertion up to that size and by partitioning beyond it keeps the
  order of equal values in short rows and loses it in longer ones): in a longer row
  equal values come higher index first.
\<close>

definition sort_low_first :: "real list \<Rightarrow> real list \<times> nat list" where
  "sort_low_first xs =
     (let idx = sort_key (\<lambda>i. - (xs ! i)) [0..<length xs] in (map (\<lambda>i. xs ! i) idx, idx))"

definition sort_stable_to_16 :: "real list \<Rightarrow> real list \<times> nat list" where
  "sort_stable_to_16 xs =
     (let start = (if length xs \<le> 16 then [0..<length xs] else rev [0..<length xs]);
          idx = sort_key (\<lambda>i. - (xs ! i)) start
      in (map (\<lambda>i. xs ! i) idx, idx))"

subsection \<open>\<^verbatim>\<open>RNNBasedJLU.forward\<close> and \<^verbatim>\<open>RNNBasedJLU.predict\<close>\<close>

text \<open>
  What the model calls and the sources do not hold: the five modules (each may raise),
  the beam-search decoder (\<^verbatim>\<open>utils.BeamSearchDecoder(logprobs, lens, k).decode()\<close>) and
  the row sorter of \<^verbatim>\<open>torch.sort\<close>.
\<close>

record collaborators =
  embeds_call :: "nat list list \<Rightarrow> error + tensor3"
  rnn_call :: "tensor3 \<Rightarrow> nat list \<Rightarrow> error + tensor3"
  pooling_call :: "tensor3 \<Rightarrow> error + tensor2"
  slot_classifier_call :: "tensor2 \<Rightarrow> error + tensor2"
  intent_classifier_call :: "tensor2 \<Rightarrow> error + tensor2"
  decode :: "tensor3 \<Rightarrow> nat list \<Rightarrow> int \<Rightarrow> error + (nat list list list \<times> tensor2)"
  sort_row :: "real list \<Rightarrow> real list \<times> nat list"

text \<open>
  \<^verbatim>\<open>o.view(*hs_size[:-1], o.size(-1))\<close>: the rows of the classifier's output, regrouped
  by example as the hidden states were.
\<close>

fun unflatten :: "nat list \<Rightarrow> 'a list \<Rightarrow> 'a list list" where
  "unflatten [] rows = []"
| "unflatten (n # ns) rows = take n rows # unflatten ns (drop n rows)"

definition forward_slots :: "collaborators \<Rightarrow> tensor3 \<Rightarrow> error + tensor3" where
  "forward_slots c hs =
     (case slot_classifier_call c (concat hs) of
        Inl e \<Rightarrow> Inl e
      | Inr out \<Rightarrow>
          if length out = length (concat hs) then Inr (unflatten (map length hs) out)
          else Inl RuntimeError)"

definition forward :: "collaborators \<Rightarrow> nat list list \<Rightarrow> nat list \<Rightarrow> error + (tensor3 \<times> tensor2)" where
  "forward c w lens =
     (case embeds_call c w of Inl e \<Rightarrow> Inl e | Inr we \<Rightarrow>
      case rnn_call c we lens of Inl e \<Rightarrow> Inl e | Inr hs \<Rightarrow>
      case pooling_call c hs of Inl e \<Rightarrow> Inl e | Inr pooled \<Rightarrow>
      case intent_classifier_call c pooled of Inl e \<Rightarrow> Inl e | Inr igts \<Rightarrow>
      case forward_slots c hs of Inl e \<Rightarrow> Inl e | Inr lgts \<Rightarrow> Inr (lgts, igts))"

definition predict ::
  "collaborators \<Rightarrow> nat list list \<Rightarrow> nat list \<Rightarrow> int
     \<Rightarrow> error + ((nat list list list \<times> tensor2) \<times> (nat list list \<times> tensor2))" where
  "predict c w lens topk =
     (case forward c w lens of Inl e \<Rightarrow> Inl e | Inr (lgts, igts) \<Rightarrow>
        let slot_logprobs = map (map log_softmax) lgts
        in case decode c slot_logprobs lens topk of Inl e \<Rightarrow> Inl e
           | Inr (slot_candidates, slot_logprobs') \<Rightarrow>
               let slot_probs = map (map exp) slot_logprobs';
                   (intent_probs, intent_candidates) = torch_sort (sort_row c) (map softmax igts);
                   intent_probs' = map (py_slice_to topk) intent_probs;
                   intent_candidates' = map (py_slice_to topk) intent_candidates
               in Inr ((slot_candidates, slot_probs), (intent_candidates', intent_probs')))"

subsection \<open>What a ranking of one row has to satisfy\<close>

text \<open>
  \<open>topk_of P k ids ps\<close>: \<open>ids\<close> are \<open>min k (length P)\<close> distinct positions of \<open>P\<close>,
  \<open>ps\<close> are the values of \<open>P\<close> there, in non-increasing order, and no position left
  out has a value above one that was returned.
\<close>

definition topk_of :: "real list \<Rightarrow> nat \<Rightarrow> nat list \<Rightarrow> real list \<Rightarrow> bool" where
  "topk_of P k ids ps =
     (length ids = min k (length P) \<and> distinct ids \<and> (\<forall>i\<in>set ids. i < length P)
      \<and> ps = map (\<lambda>i. P ! i) ids \<and> sorted_wrt (\<lambda>a b. b \<le> a) ps
      \<and> (\<forall>c<length P. c \<notin> set ids \<longrightarrow> (\<forall>p\<in>set ps. P ! c \<le> p)))"

text \<open>Equal values come lower position first.\<close>

definition ties_lower_id_first :: "nat list \<Rightarrow> real list \<Rightarrow> bool" where
  "ties_lower_id_first ids ps =
     (\<forall>p<length ids. \<forall>q<length ids. p < q \<and> ps ! p = ps ! q \<longrightarrow> ids ! p < ids ! q)"

subsection \<open>The beam-search decoder\<close>

text \<open>
  Modelled from the spec: \<^verbatim>\<open>utils.BeamSearchDecoder\<close> (\<^verbatim>\<open>models/utils.py\<close>) is not among
  the sources. The spec (4.1): a hypothesis is the label ids chosen so far with their
  cumulative log-probability. At position 0 the beam holds the \<open>k\<close> (or fewer)
  highest-scoring single labels; at every later position below the example's length
  every live hypothesis is extended by every label, the score being the sum, and the
  best \<open>k\<close> extensions are kept, ties in the order of (hypothesis index, label id);
  positions at or beyond the length extend nothing. A length of 0 fails with
  InvalidInputError, a batch whose size differs from the number of lengths (or a length
  beyond the positions scored) with ShapeMismatchError. The lengths are validated
  before any example is searched.
\<close>

type_synonym hypothesis = "nat list \<times> real"

text \<open>Modelled from the spec: the best \<open>k\<close> hypotheses, highest score first, equal scores in
  the order they came in (the sort is stable).\<close>

definition top_hyps :: "int \<Rightarrow> hypothesis list \<Rightarrow> hypothesis list" where
  "top_hyps k hs = take (nat k) (sort_key (\<lambda>h. - snd h) hs)"

text \<open>Modelled from the spec: the beam at position 0, the best \<open>k\<close> single labels.\<close>

definition init_beam :: "int \<Rightarrow> real list \<Rightarrow> hypothesis list" where
  "init_beam k row = top_hyps k (map (\<lambda>l. ([l], row ! l)) [0..<length row])"

text \<open>Modelled from the spec: one later position; every hypothesis extended by every label,
  in the order of (hypothesis index, label id), and the best \<open>k\<close> kept.\<close>

definition extend_beam :: "int \<Rightarrow> real list \<Rightarrow> hypothesis list \<Rightarrow> hypothesis list" where
  "extend_beam k row beam =
     top_hyps k
       (concat (map (\<lambda>h. map (\<lambda>l. (fst h @ [l], snd h + row ! l)) [0..<length row]) beam))"

text \<open>Modelled from the spec: the search for one example of true length \<open>n\<close>; the positions
  from \<open>n\<close> on are not read.\<close>

definition decode_example :: "int \<Rightarrow> real list list \<Rightarrow> nat \<Rightarrow> error + hypothesis list" where
  "decode_example k logp n =
     (if length logp < n then Inl ShapeMismatchError
      else case take n logp of
             [] \<Rightarrow> Inl InvalidInputError
           | row0 # rest \<Rightarrow>
               Inr (foldl (\<lambda>beam row. extend_beam k row beam) (init_beam k row0) rest))"

text \<open>Modelled from the spec: the search for every example of the batch, giving the label
  sequences and their cumulative log-probabilities.\<close>

definition beam_decode ::
  "tensor3 \<Rightarrow> nat list \<Rightarrow> int \<Rightarrow> error + (nat list list list \<times> tensor2)" where
  "beam_decode logprobs lens k =
     (if 0 \<in> set lens then Inl InvalidInputError
      else if length logprobs \<noteq> length lens then Inl ShapeMismatchError
      else case collect (map (\<lambda>p. decode_example k (fst p) (snd p)) (zip logprobs lens)) of
             Inl e \<Rightarrow> Inl e
           | Inr beams \<Rightarrow> Inr (map (map fst) beams, map (map snd) beams))"

text \<open>
  \<open>path_of rows h\<close>: the hypothesis \<open>h\<close> chose one label at each of the positions
  \<open>rows\<close>, each a class of its position, and its score is the sum of their
  log-probabilities.
\<close>

definition path_of :: "real list list \<Rightarrow> hypothesis \<Rightarrow> bool" where
  "path_of rows h =
     (length (fst h) = length rows
      \<and> (\<forall>t<length rows. fst h ! t < length (rows ! t))
      \<and> snd h = sum_list (map (\<lambda>t. rows ! t ! (fst h ! t)) [0..<length rows]))"

subsection \<open>Modules that match a constructed model\<close>

text \<open>
  A classifier constructed with \<^verbatim>\<open>num_labels=n\<close> returns \<open>n\<close> scores for every row:
  \<open>conforms c m\<close> says that the two classifiers of \<open>c\<close> are the ones \<open>m\<close> was
  constructed with.
\<close>

definition conforms :: "collaborators \<Rightarrow> jlu \<Rightarrow> bool" where
  "conforms c m =
     ((\<forall>x out. slot_classifier_call c x = Inr out
          \<longrightarrow> (\<forall>row\<in>set out. length row = num_labels (slot_classifier m)))
      \<and> (\<forall>x out. intent_classifier_call c x = Inr out
          \<longrightarrow> (\<forall>row\<in>set out. length row = num_labels (intent_classifier m))))"

subsection \<open>Strings and paths\<close>

text \<open>
  \<^verbatim>\<open>str.split()\<close> without arguments cuts at runs of whitespace and returns no empty
  word. A \<open>char\<close> is a code point below 256, and these are the whitespace characters
  of Python among them (U+0085 and U+00A0 included); the whitespace beyond U+00FF is
  outside the strings modelled. \<^verbatim>\<open>sep.join(xs)\<close> puts \<open>sep\<close> between the elements,
  \<^verbatim>\<open>os.path.join(a, b)\<close> is the one of POSIX.
\<close>

definition is_space :: "char \<Rightarrow> bool" where
  "is_space ch =
     (ch \<in> set [CHR '' '', CHR 0x09, CHR 0x0A, CHR 0x0B, CHR 0x0C, CHR 0x0D,
                 CHR 0x1C, CHR 0x1D, CHR 0x1E, CHR 0x1F, CHR 0x85, CHR 0xA0])"

fun split_from :: "string \<Rightarrow> string \<Rightarrow> string list" where
  "split_from cur [] = (if cur = [] then [] else [cur])"
| "split_from cur (ch # cs) =
     (if is_space ch then (if cur = [] then split_from [] cs else cur # split_from [] cs)
      else split_from (cur @ [ch]) cs)"

definition py_split :: "string \<Rightarrow> string list" where
  "py_split s = split_from [] s"

fun py_join :: "string \<Rightarrow> string list \<Rightarrow> string" where
  "py_join sep [] = []"
| "py_join sep [x] = x"
| "py_join sep (x # y # ys) = x @ sep @ py_join sep (y # ys)"

definition path_join :: "string \<Rightarrow> string \<Rightarrow> string" where
  "path_join a b =
     (if b \<noteq> [] \<and> hd b = CHR ''/'' then b
      else if a = [] \<or> last a = CHR ''/'' then a @ b
      else a @ ''/'' @ b)"

subsection \<open>\<^verbatim>\<open>save\<close>\<close>

text \<open>
  The file system maps a path to the content of the file there. \<^verbatim>\<open>open(path, "w")\<close>
  may fail (\<open>can_open\<close> says where it does not) and otherwise replaces the file; the
  loop then writes every sample followed by a newline. A failure leaves the files
  written before it. \<open>str\<close> is Python's \<^verbatim>\<open>str\<close> on a probability.
\<close>

type_synonym fs = "string \<rightharpoonup> string"

definition write_lines :: "string list \<Rightarrow> string" where
  "write_lines data = concat (map (\<lambda>sample. sample @ [CHR 0x0A]) data)"

fun write_files :: "(string \<Rightarrow> bool) \<Rightarrow> (string list \<times> string) list \<Rightarrow> fs \<Rightarrow> error option \<times> fs" where
  "write_files can_open [] fsys = (None, fsys)"
| "write_files can_open (dp # rest) fsys =
     (if can_open (snd dp)
      then write_files can_open rest (fsys(snd dp \<mapsto> write_lines (fst dp)))
      else (Some OSError, fsys))"

definition save_paths :: "args \<Rightarrow> string list" where
  "save_paths a =
     map (path_join (save_dir a))
       [label_filename a, intent_filename a, label_probs_filename a, intent_probs_filename a]"

definition save ::
  "(string \<Rightarrow> bool) \<Rightarrow> (real \<Rightarrow> string) \<Rightarrow> args
     \<Rightarrow> string list \<Rightarrow> string list \<Rightarrow> real list \<Rightarrow> real list \<Rightarrow> fs \<Rightarrow> error option \<times> fs" where
  "save can_open str a labels intents pl p_i fsys =
     (let labels' = map (\<lambda>label. py_join '' '' (py_split label)) labels;
          pl' = map str pl;
          p_i' = map str p_i;
          samples = [labels', intents, pl', p_i'];
          paths = save_paths a
      in write_files can_open (zip samples paths) fsys)"

text \<open>The lines of a file as a reader sees them: each ends at a newline.\<close>

fun lines_from :: "string \<Rightarrow> string \<Rightarrow> string list" where
  "lines_from cur [] = (if cur = [] then [] else [cur])"
| "lines_from cur (ch # cs) =
     (if ch = CHR 0x0A then cur # lines_from [] cs else lines_from (cur @ [ch]) cs)"

definition file_lines :: "string \<Rightarrow> string list" where
  "file_lines content = lines_from [] content"

subsection \<open>The data loader and the predictor\<close>

text \<open>
  \<^verbatim>\<open>torch\<close>'s \<^verbatim>\<open>DataLoader\<close> is constructed without \<^verbatim>\<open>shuffle\<close>, so it reads the dataset
  in order; its batch sampler fills a batch up to \<^verbatim>\<open>batch_size\<close>, yields it, and
  yields what is left at the end. A batch size that is not positive raises ValueError.
\<close>

fun batch_sampler :: "nat \<Rightarrow> 'x list \<Rightarrow> 'x list \<Rightarrow> 'x list list" where
  "batch_sampler n cur [] = (if cur = [] then [] else [cur])"
| "batch_sampler n cur (x # xs) =
     (if length (cur @ [x]) = n then (cur @ [x]) # batch_sampler n [] xs
      else batch_sampler n (cur @ [x]) xs)"

definition DataLoader :: "'x list \<Rightarrow> int \<Rightarrow> ('x list \<Rightarrow> 'b) \<Rightarrow> error + 'b list" where
  "DataLoader dataset bs collate_fn =
     (if bs \<le> 0 then Inl ValueError
      else Inr (map collate_fn (batch_sampler (nat bs) [] dataset)))"

text \<open>
  A batch as the collator (\<^verbatim>\<open>dataset.TextSequenceBatchCollator\<close>, external) builds it.
  The state of a run: the files, the progress bar of \<^verbatim>\<open>PredictorWithProgress\<close> and
  the batches handed to the model so far.
\<close>

record 'x batch =
  string_feat :: "'x list"
  tensor_feat :: "(nat list list \<times> nat list) list"

record progress_bar =
  bar_total :: nat
  bar_n :: nat
  bar_closed :: bool

record 'b world =
  files :: fs
  progress :: "progress_bar option"
  scored :: "'b list"

text \<open>\<^verbatim>\<open>PredictorWithProgress\<close> (\<^verbatim>\<open>predict.py\<close>, lines 107 to 139): \<^verbatim>\<open>select_data\<close> takes
  the first entry, \<^verbatim>\<open>model_call\<close> is \<^verbatim>\<open>model.predict(*data, topk)\<close>, and the three hooks
  open the progress bar with the size of the dataset, advance it by
  \<^verbatim>\<open>len(batch["string"])\<close> and close it.\<close>

definition select_data :: "'d list \<Rightarrow> error + 'd" where
  "select_data data = py_index data 0"

definition model_call ::
  "collaborators \<Rightarrow> int \<Rightarrow> nat list list \<times> nat list
     \<Rightarrow> error + ((nat list list list \<times> tensor2) \<times> (nat list list \<times> tensor2))" where
  "model_call c topk data = predict c (fst data) (snd data) topk"

definition on_run_started :: "nat \<Rightarrow> 'b world \<Rightarrow> 'b world" where
  "on_run_started n w = w\<lparr> progress := Some \<lparr> bar_total = n, bar_n = 0, bar_closed = False \<rparr> \<rparr>"

definition on_batch_started :: "'x batch \<Rightarrow> 'b world \<Rightarrow> 'b world" where
  "on_batch_started b w =
     w\<lparr> progress := map_option (\<lambda>p. p\<lparr> bar_n := bar_n p + length (string_feat b) \<rparr>) (progress w) \<rparr>"

definition on_run_finished :: "'b world \<Rightarrow> 'b world" where
  "on_run_finished w = w\<lparr> progress := map_option (\<lambda>p. p\<lparr> bar_closed := True \<rparr>) (progress w) \<rparr>"

text \<open>
  Modelled from the spec: \<^verbatim>\<open>inference.Predictor\<close> (\<^verbatim>\<open>inference.py\<close>) is not among the
  sources; \<open>run_batches\<close> is its loop over the batches. The spec (4.3): after \<^verbatim>\<open>on_run_started\<close>, for each batch in the order of the
  loader, \<^verbatim>\<open>on_batch_started\<close>, the selection of the batch's fields, the model call and
  the decoding (\<open>step\<close>, which gives the results of the batch's examples in order), and
  the results are appended to the collection; \<^verbatim>\<open>on_run_finished\<close> returns it. The first
  failure aborts the run.
\<close>

fun run_batches ::
  "('x batch \<Rightarrow> error + 'r list) \<Rightarrow> 'x batch list \<Rightarrow> ('x batch) world
     \<Rightarrow> (error + 'r list) \<times> ('x batch) world" where
  "run_batches step [] w = (Inr [], w)"
| "run_batches step (b # bs) w =
     (let w1 = on_batch_started b w;
          w2 = w1\<lparr> scored := scored w1 @ [b] \<rparr>
      in case step b of
           Inl e \<Rightarrow> (Inl e, w2)
         | Inr rs \<Rightarrow>
             (case run_batches step bs w2 of
                (Inl e, w3) \<Rightarrow> (Inl e, w3)
              | (Inr rest, w3) \<Rightarrow> (Inr (rs @ rest), w3)))"

text \<open>Modelled from the spec: the whole run, between the two hooks of the run.\<close>

definition inference ::
  "('x batch \<Rightarrow> error + 'r list) \<Rightarrow> nat \<Rightarrow> 'x batch list \<Rightarrow> ('x batch) world
     \<Rightarrow> (error + 'r list) \<times> ('x batch) world" where
  "inference step n loader w =
     (case run_batches step loader (on_run_started n w) of
        (Inl e, w') \<Rightarrow> (Inl e, w')
      | (Inr rs, w') \<Rightarrow> (Inr rs, on_run_finished w'))"

subsection \<open>\<^verbatim>\<open>generate\<close>\<close>

text \<open>
  One example's results as the predictor returns them: the label candidates (strings,
  \<^verbatim>\<open>save\<close> splits them) with their probabilities and the intent candidates with theirs.
  What \<^verbatim>\<open>generate\<close> calls and the sources do not hold: the checkpoint loader, the
  collator (given the padding ids), the behaviour of the modules of a constructed
  model, the predictor's rendering of a batch's model output as results, \<^verbatim>\<open>open\<close> and
  \<^verbatim>\<open>str\<close>. The vocabularies and the dataset are loaded by external code and are
  arguments here.
\<close>

type_synonym prediction = "(string list \<times> real list) \<times> (string list \<times> real list)"

record 'x environment =
  load_checkpoint :: "string \<Rightarrow> jlu \<Rightarrow> bool"
  collator :: "nat list \<Rightarrow> 'x list \<Rightarrow> 'x batch"
  modules_of :: "jlu \<Rightarrow> collaborators"
  render ::
    "vocabulary list \<Rightarrow> 'x batch
       \<Rightarrow> (nat list list list \<times> tensor2) \<times> (nat list list \<times> tensor2) \<Rightarrow> prediction list"
  can_open :: "string \<Rightarrow> bool"
  str_float :: "real \<Rightarrow> string"

text \<open>Modelled from the spec: what the predictor does with one batch (steps b to e of 4.3):
  it selects the tensor fields, calls the model and renders the output as the results
  of the batch's examples.\<close>

definition batch_step ::
  "'x environment \<Rightarrow> collaborators \<Rightarrow> int \<Rightarrow> vocabulary list \<Rightarrow> 'x batch
     \<Rightarrow> error + prediction list" where
  "batch_step env c topk vocabs b =
     (case select_data (tensor_feat b) of Inl e \<Rightarrow> Inl e | Inr data \<Rightarrow>
      case model_call c topk data of Inl e \<Rightarrow> Inl e | Inr out \<Rightarrow> Inr (render env vocabs b out))"

text \<open>\<^verbatim>\<open>[l[0] for l in ls]\<close>: an empty candidate list raises IndexError.\<close>

definition first_candidates :: "'a list list \<Rightarrow> error + 'a list" where
  "first_candidates ls = collect (map (\<lambda>l. py_index l 0) ls)"

text \<open>
  Lines 261 to 264 of \<^verbatim>\<open>generate\<close>: what becomes of the predictor's output
  (\<^verbatim>\<open>report_stats\<close> does nothing).
\<close>

definition generate_output ::
  "(string \<Rightarrow> bool) \<Rightarrow> (real \<Rightarrow> string) \<Rightarrow> args
     \<Rightarrow> (string list list \<times> real list list) \<times> (string list list \<times> real list list)
     \<Rightarrow> fs \<Rightarrow> error option \<times> fs" where
  "generate_output opn str a out fsys =
     (case first_candidates (fst (fst out)) of Inl e \<Rightarrow> (Some e, fsys) | Inr labels \<Rightarrow>
      case first_candidates (fst (snd out)) of Inl e \<Rightarrow> (Some e, fsys) | Inr intents \<Rightarrow>
      case first_candidates (snd (fst out)) of Inl e \<Rightarrow> (Some e, fsys) | Inr pl \<Rightarrow>
      case first_candidates (snd (snd out)) of Inl e \<Rightarrow> (Some e, fsys) | Inr p_i \<Rightarrow>
        save opn str a labels intents pl p_i fsys)"

definition generate ::
  "'x environment \<Rightarrow> args \<Rightarrow> vocabulary list \<Rightarrow> 'x list \<Rightarrow> ('x batch) world
     \<Rightarrow> error option \<times> ('x batch) world" where
  "generate env a vocabs dataset w =
     (case DataLoader dataset (batch_size a) (collator env (map length vocabs)) of
        Inl e \<Rightarrow> (Some e, w)
      | Inr test_dataloader \<Rightarrow>
     (case prepare_model (load_checkpoint env) a vocabs of
        Inl e \<Rightarrow> (Some e, w)
      | Inr (mdl, vocab0) \<Rightarrow>
          let vocabs' = vocabs[0 := vocab0];
              model = mdl\<lparr> model_beam_size := Some (beam_size a) \<rparr>;
              step = batch_step env (modules_of env model) (top_k a) vocabs'
          in (case inference step (length dataset) test_dataloader w of
                (Inl e, w') \<Rightarrow> (Some e, w')
              | (Inr preds, w') \<Rightarrow>
                  let out = ((map (\<lambda>r. fst (fst r)) preds, map (\<lambda>r. snd (fst r)) preds),
                             (map (\<lambda>r. fst (snd r)) preds, map (\<lambda>r. snd (snd r)) preds))
                  in (case generate_output (can_open env) (str_float env) a out (files w') of
                        (r, fsys) \<Rightarrow> (r, w'\<lparr> files := fsys \<rparr>)))))"

subsection \<open>A small model to run the definitions on\<close>

text \<open>
  Two label classes and two intent classes, every score 0; the token ids are embedded
  as one-dimensional vectors and the recurrent layer is the identity.
\<close>

definition demo_model ::
  "(real list \<Rightarrow> real list \<times> nat list)
     \<Rightarrow> (tensor3 \<Rightarrow> nat list \<Rightarrow> int \<Rightarrow> error + (nat list list list \<times> tensor2))
     \<Rightarrow> collaborators" where
  "demo_model srt dec =
     \<lparr> embeds_call = (\<lambda>w. Inr (map (map (\<lambda>t. [real t])) w)),
       rnn_call = (\<lambda>x lens. Inr x),
       pooling_call = (\<lambda>hs. Inr (map (\<lambda>h. [0]) hs)),
       slot_classifier_call = (\<lambda>rows. Inr (map (\<lambda>r. [0, 0]) rows)),
       intent_classifier_call = (\<lambda>rows. Inr (map (\<lambda>r. [0, 0]) rows)),
       decode = dec,
       sort_row = srt \<rparr>"

text \<open>
  The same modules, decoded by the beam search, with an intent classifier that gives
  every example the row \<open>scores\<close>.
\<close>

definition scores_model ::
  "real list \<Rightarrow> (real list \<Rightarrow> real list \<times> nat list) \<Rightarrow> collaborators" where
  "scores_model scores srt =
     \<lparr> embeds_call = (\<lambda>w. Inr (map (map (\<lambda>t. [real t])) w)),
       rnn_call = (\<lambda>x lens. Inr x),
       pooling_call = (\<lambda>hs. Inr (map (\<lambda>h. [0]) hs)),
       slot_classifier_call = (\<lambda>rows. Inr (map (\<lambda>r. [0, 0]) rows)),
       intent_classifier_call = (\<lambda>rows. Inr (map (\<lambda>r. scores) rows)),
       decode = beam_decode,
       sort_row = srt \<rparr>"

text \<open>
  The defaults of the command line (with a batch size of 3 and \<^verbatim>\<open>--top-k 2\<close>), three
  vocabularies and a dataset of five sentences.
\<close>

definition demo_args :: args where
  "demo_args =
     \<lparr> unk = ''<unk>'', eos = ''<eos>'', bos = ''<bos>'', ckpt_path = ''model.ckpt'',
       batch_size = 3, save_dir = ''out'', top_k = 2,
       label_filename = ''label.txt'', label_probs_filename = ''label-probs.txt'',
       intent_filename = ''intent.txt'', intent_probs_filename = ''intent-probs.txt'',
       beam_size = 6, expand_vocab = False, args_hidden_dim = 300, args_word_dim = 300 \<rparr>"

definition demo_vocabs :: "vocabulary list" where
  "demo_vocabs = [[''<unk>'', ''<bos>'', ''<eos>'', ''hello''], [''O'', ''B''], [''greet'']]"

definition demo_dataset :: "string list" where
  "demo_dataset = [''hello there'', ''hello'', ''good morning'', ''hi'', ''see you'']"

text \<open>
  An environment in which every file opens and every checkpoint loads; its \<^verbatim>\<open>str\<close>
  knows the two probabilities of the small model. The collator splits a sentence into
  words, takes the id of a word from the word vocabulary (0, the unknown word, where it
  has none), fills every row up to the longest one with the padding id it was given
  and keeps the true lengths. The rendering gives every example of the batch its
  candidates as strings: an id is looked up in the label or intent vocabulary, and one
  without an entry reads as the unknown marker (as \<^verbatim>\<open>to_sent\<close> does in the comment
  block of \<^verbatim>\<open>predict.py\<close>, lines 166 and 167).
\<close>

definition demo_str :: "real \<Rightarrow> string" where
  "demo_str p = (if p = 1 / 4 then ''0.25'' else if p = 1 / 2 then ''0.5'' else ''?'')"

definition demo_word_id :: "vocabulary \<Rightarrow> string \<Rightarrow> nat" where
  "demo_word_id v wd = (if wd \<in> set v then length (takeWhile (\<lambda>x. x \<noteq> wd) v) else 0)"

definition demo_collator :: "nat list \<Rightarrow> string list \<Rightarrow> string batch" where
  "demo_collator pads xs =
     (let rows = map (\<lambda>x. map (demo_word_id (demo_vocabs ! 0)) (py_split x)) xs;
          lens = map length rows;
          n = foldr max lens 0
      in \<lparr> string_feat = xs,
           tensor_feat = [(map (\<lambda>r. r @ replicate (n - length r) (pads ! 0)) rows, lens)] \<rparr>)"

definition demo_to_sent :: "vocabulary \<Rightarrow> nat list \<Rightarrow> string" where
  "demo_to_sent vocab idx =
     py_join '' '' (map (\<lambda>w. if w < length vocab then vocab ! w else ''<unk>'') idx)"

definition demo_render ::
  "vocabulary list \<Rightarrow> string batch
     \<Rightarrow> (nat list list list \<times> tensor2) \<times> (nat list list \<times> tensor2) \<Rightarrow> prediction list" where
  "demo_render vocabs b out =
     map (\<lambda>i. ((map (demo_to_sent (vocabs ! 1)) (fst (fst out) ! i), snd (fst out) ! i),
               (map (\<lambda>t. demo_to_sent (vocabs ! 2) [t]) (fst (snd out) ! i), snd (snd out) ! i)))
         [0..<length (string_feat b)]"

definition demo_env :: "string environment" where
  "demo_env =
     \<lparr> load_checkpoint = (\<lambda>path mdl. True),
       collator = demo_collator,
       modules_of = (\<lambda>mdl. demo_model sort_low_first beam_decode),
       render = demo_render,
       can_open = (\<lambda>path. True),
       str_float = demo_str \<rparr>"

definition demo_world :: "'b world" where
  "demo_world = \<lparr> files = Map.empty, progress = None, scored = [] \<rparr>"

text \<open>
  A model over \<open>ns + 1\<close> label classes and \<open>ni + 1\<close> intent classes whose classifiers
  score the last class 1 and every other class 0, decoded by the beam search.
\<close>

definition last_class_model :: "nat \<Rightarrow> nat \<Rightarrow> collaborators" where
  "last_class_model ns ni =
     \<lparr> embeds_call = (\<lambda>w. Inr (map (map (\<lambda>t. [real t])) w)),
       rnn_call = (\<lambda>x lens. Inr x),
       pooling_call = (\<lambda>hs. Inr (map (\<lambda>h. [0]) hs)),
       slot_classifier_call = (\<lambda>rows. Inr (map (\<lambda>r. replicate ns 0 @ [1]) rows)),
       intent_classifier_call = (\<lambda>rows. Inr (map (\<lambda>r. replicate ni 0 @ [1]) rows)),
       decode = beam_decode,
       sort_row = sort_low_first \<rparr>"
section \<open>Properties\<close>

lemma py_slice_to_length:
  "0 \<le> k \<Longrightarrow> length (py_slice_to k xs) = min (nat k) (length xs)"
  by (simp add: py_slice_to_def)

subsection \<open>Sorting rows\<close>

lemma sort_low_first_ok: "sorts_descending sort_low_first"
  unfolding sorts_descending_def sorted_desc_of_def sort_low_first_def Let_def
  using sorted_sort_key[of "\<lambda>i. - (xs ! i)" for xs :: "real list"]
  by (auto simp: sorted_wrt_map sorted_map)

lemma sort_stable_to_16_ok: "sorts_descending sort_stable_to_16"
  unfolding sorts_descending_def sorted_desc_of_def sort_stable_to_16_def Let_def
  using sorted_sort_key[of "\<lambda>i. - (xs ! i)" for xs :: "real list"]
  by (auto simp: sorted_wrt_map sorted_map)

lemma sort_stable_to_16_short:
  "length xs \<le> 16 \<Longrightarrow> sort_stable_to_16 xs = sort_low_first xs"
  by (simp add: sort_stable_to_16_def sort_low_first_def)

lemma sorted_desc_of_length:
  assumes "sorted_desc_of P (vs, idx)"
  shows "length idx = length P" and "length vs = length P"
proof -
  from assms have d: "distinct idx" and s: "set idx = set [0..<length P]"
    and v: "vs = map (\<lambda>i. P ! i) idx"
    by (simp_all add: sorted_desc_of_def)
  have "length idx = card (set idx)" using d by (simp add: distinct_card)
  also have "\<dots> = length P" using s by simp
  finally show "length idx = length P" .
  then show "length vs = length P" using v by simp
qed

lemma take_topk_of:
  assumes "sorted_desc_of P (vs, idx)"
  shows "topk_of P m (take m idx) (take m vs)"
proof -
  from assms have d: "distinct idx" and s: "set idx = set [0..<length P]"
    and v: "vs = map (\<lambda>i. P ! i) idx" and o: "sorted_wrt (\<lambda>a b. b \<le> a) vs"
    unfolding sorted_desc_of_def fst_conv snd_conv by blast+
  have len: "length idx = length P" "length vs = length P"
    using sorted_desc_of_length[OF assms] by simp_all
  have 1: "length (take m idx) = min m (length P)" using len by simp
  have 2: "distinct (take m idx)" using d by simp
  have 3: "\<forall>i\<in>set (take m idx). i < length P"
    using s set_take_subset[of m idx] by auto
  have 4: "take m vs = map (\<lambda>i. P ! i) (take m idx)" using v by (simp add: take_map)
  have 5: "sorted_wrt (\<lambda>a b. b \<le> a) (take m vs)" using o by (rule sorted_wrt_take)
  have 6: "\<forall>c<length P. c \<notin> set (take m idx) \<longrightarrow> (\<forall>p\<in>set (take m vs). P ! c \<le> p)"
  proof (intro allI impI ballI)
    fix c p assume c: "c < length P" "c \<notin> set (take m idx)" and p: "p \<in> set (take m vs)"
    from c(1) s have "c \<in> set idx" by simp
    then have "c \<in> set (take m idx) \<union> set (drop m idx)"
      by (metis append_take_drop_id set_append)
    with c(2) have "c \<in> set (drop m idx)" by simp
    then obtain j where j: "j < length (drop m idx)" "drop m idx ! j = c"
      by (auto simp: in_set_conv_nth)
    from p obtain i where i: "i < length (take m vs)" "take m vs ! i = p"
      by (auto simp: in_set_conv_nth)
    have im: "i < m" "i < length vs" using i(1) by simp_all
    have jm: "m + j < length idx" using j(1) by simp
    have "vs ! (m + j) \<le> vs ! i"
      using sorted_wrt_nth_less[OF o, of i "m + j"] im jm len by simp
    moreover have "vs ! (m + j) = P ! c" using v jm j(2) len by simp
    moreover have "vs ! i = p" using i im by simp
    ultimately show "P ! c \<le> p" by simp
  qed
  show ?thesis unfolding topk_of_def using 1 2 3 4 5 6 by blast
qed

subsection \<open>Softmax\<close>

lemma sum_list_exp_pos: "xs \<noteq> [] \<Longrightarrow> 0 < sum_list (map exp (xs::real list))"
proof (cases xs)
  case Nil
  assume "xs \<noteq> []"
  with Nil show ?thesis by simp
next
  case (Cons a ys)
  have "0 \<le> sum_list (map exp ys)" by (rule sum_list_nonneg) auto
  then have "0 < exp a + sum_list (map exp ys)" by (intro add_pos_nonneg) simp_all
  with Cons show ?thesis by simp
qed

lemma length_softmax: "length (softmax xs) = length xs"
  by (simp add: softmax_def)

lemma softmax_nth: "i < length xs \<Longrightarrow> softmax xs ! i = exp (xs ! i) / sum_list (map exp xs)"
  by (simp add: softmax_def)

lemma sum_list_softmax: "xs \<noteq> [] \<Longrightarrow> sum_list (softmax xs) = 1"
proof -
  assume ne: "xs \<noteq> []"
  have "sum_list (softmax xs) = sum_list (map exp xs) / sum_list (map exp xs)"
    unfolding softmax_def by (simp add: divide_inverse sum_list_mult_const comp_def)
  then show ?thesis using sum_list_exp_pos[OF ne] by simp
qed

lemma length_log_softmax: "length (log_softmax xs) = length xs"
  by (simp add: log_softmax_def)

lemma sum_list_exp_log_softmax: "xs \<noteq> [] \<Longrightarrow> sum_list (map exp (log_softmax xs)) = 1"
proof -
  assume ne: "xs \<noteq> []"
  let ?S = "sum_list (map exp xs)"
  have pos: "0 < ?S" by (rule sum_list_exp_pos[OF ne])
  have "map exp (log_softmax xs) = map (\<lambda>x. exp x * inverse ?S) xs"
    unfolding log_softmax_def using pos by (simp add: exp_diff exp_ln divide_inverse)
  then have "sum_list (map exp (log_softmax xs)) = ?S * inverse ?S"
    by (simp add: sum_list_mult_const)
  then show ?thesis using pos by simp
qed

subsection \<open>predict\<close>

lemma predict_Inr:
  assumes "forward c w lens = Inr (lgts, igts)"
    and "decode c (map (map log_softmax) lgts) lens topk = Inr (sc, lp)"
  shows "predict c w lens topk =
     Inr ((sc, map (map exp) lp),
          (map (\<lambda>row. py_slice_to topk (snd (sort_row c (softmax row)))) igts,
           map (\<lambda>row. py_slice_to topk (fst (sort_row c (softmax row)))) igts))"
  using assms by (simp add: predict_def torch_sort_def Let_def comp_def)

lemma predict_InrD:
  assumes "predict c w lens topk = Inr r"
  shows "\<exists>lgts igts sc lp. forward c w lens = Inr (lgts, igts)
           \<and> decode c (map (map log_softmax) lgts) lens topk = Inr (sc, lp)"
  using assms by (auto simp: predict_def split: sum.splits prod.splits)

subsection \<open>The intent ranking\<close>

lemma py_slice_to_as_take:
  "py_slice_to k xs = take (if 0 \<le> k then nat k else length xs - nat (- k)) xs"
  by (simp add: py_slice_to_def)

lemma sort_row_topk_of:
  assumes "sorts_descending srt"
  shows "topk_of P (if 0 \<le> k then nat k else length P - nat (- k))
           (py_slice_to k (snd (srt P))) (py_slice_to k (fst (srt P)))"
proof -
  have sd: "sorted_desc_of P (fst (srt P), snd (srt P))"
    using assms by (simp add: sorts_descending_def)
  have len: "length (snd (srt P)) = length P" "length (fst (srt P)) = length P"
    using sorted_desc_of_length[OF sd] by simp_all
  show ?thesis
    using take_topk_of[OF sd] len by (simp add: py_slice_to_as_take)
qed

text \<open>
  Claim C3. \<^verbatim>\<open>predict\<close> turns the raw intent scores of every example into the normalized
  exponential over the intent classes (the probabilities of a row sum to 1) and
  returns the \<open>min k n\<close> classes of highest probability (\<open>n\<close> classes, \<open>k \<ge> 1\<close>) with
  their probabilities, in non-increasing order: a \<open>k\<close> above \<open>n\<close> is clamped, not an
  error. It holds for every row sorter that keeps the promise of \<^verbatim>\<open>torch.sort\<close>.
\<close>

theorem predict_intents_topk:
  assumes srt: "sorts_descending (sort_row c)" and k: "1 \<le> topk"
    and fw: "forward c w lens = Inr (lgts, igts)"
    and dec: "decode c (map (map log_softmax) lgts) lens topk = Inr (sc, lp)"
  shows "\<exists>ic ip. predict c w lens topk = Inr ((sc, map (map exp) lp), (ic, ip))
      \<and> length ic = length igts \<and> length ip = length igts
      \<and> (\<forall>i<length igts. topk_of (softmax (igts ! i)) (nat topk) (ic ! i) (ip ! i))
      \<and> (\<forall>i<length igts. \<forall>j<length (ic ! i).
            ip ! i ! j = exp (igts ! i ! (ic ! i ! j)) / sum_list (map exp (igts ! i)))
      \<and> (\<forall>i<length igts. igts ! i \<noteq> [] \<longrightarrow> sum_list (softmax (igts ! i)) = 1)"
proof -
  let ?ic = "map (\<lambda>row. py_slice_to topk (snd (sort_row c (softmax row)))) igts"
  let ?ip = "map (\<lambda>row. py_slice_to topk (fst (sort_row c (softmax row)))) igts"
  have p: "predict c w lens topk = Inr ((sc, map (map exp) lp), (?ic, ?ip))"
    by (rule predict_Inr[OF fw dec])
  have t: "\<forall>i<length igts. topk_of (softmax (igts ! i)) (nat topk) (?ic ! i) (?ip ! i)"
    using sort_row_topk_of[OF srt, of _ topk] k by simp
  have v: "\<forall>i<length igts. \<forall>j<length (?ic ! i).
            ?ip ! i ! j = exp (igts ! i ! (?ic ! i ! j)) / sum_list (map exp (igts ! i))"
  proof (intro allI impI)
    fix i j assume i: "i < length igts" and j: "j < length (?ic ! i)"
    from t i have tk: "topk_of (softmax (igts ! i)) (nat topk) (?ic ! i) (?ip ! i)" by blast
    then have "?ip ! i = map (\<lambda>n. softmax (igts ! i) ! n) (?ic ! i)"
      and "\<forall>n\<in>set (?ic ! i). n < length (softmax (igts ! i))"
      unfolding topk_of_def by blast+
    with j have "?ip ! i ! j = softmax (igts ! i) ! (?ic ! i ! j)"
      and "?ic ! i ! j < length (igts ! i)"
      by (simp_all add: length_softmax)
    then show "?ip ! i ! j = exp (igts ! i ! (?ic ! i ! j)) / sum_list (map exp (igts ! i))"
      by (simp add: softmax_nth)
  qed
  have s: "\<forall>i<length igts. igts ! i \<noteq> [] \<longrightarrow> sum_list (softmax (igts ! i)) = 1"
    by (simp add: sum_list_softmax)
  show ?thesis
    apply (rule exI[of _ ?ic], rule exI[of _ ?ip])
    using p t v s by simp
qed

lemma demo_forward:
  "forward (demo_model srt dec) [[7, 8], [9, 0]] [2, 1]
     = Inr ([[[0, 0], [0, 0]], [[0, 0], [0, 0]]], [[0, 0], [0, 0]])"
  by (simp add: forward_def forward_slots_def demo_model_def)

theorem predict_intents_topk_witness:
  "sorts_descending (sort_row (demo_model sort_low_first (\<lambda>lp lens k. Inr ([], []))))
   \<and> (1::int) \<le> 3
   \<and> (\<exists>ic ip. predict (demo_model sort_low_first (\<lambda>lp lens k. Inr ([], []))) [[7, 8], [9, 0]] [2, 1] 3
                  = Inr (([], []), (ic, ip))
        \<and> length ic = 2 \<and> length ip = 2
        \<and> topk_of (softmax [0, 0]) 3 (ic ! 0) (ip ! 0)
        \<and> topk_of (softmax [0, 0]) 3 (ic ! 1) (ip ! 1))"
proof -
  let ?c = "demo_model sort_low_first (\<lambda>lp lens k. Inr ([], []))"
  have h1: "sorts_descending (sort_row ?c)"
    by (simp add: demo_model_def sort_low_first_ok)
  have h2: "(1::int) \<le> 3" by simp
  have h3: "decode ?c (map (map log_softmax) [[[0, 0], [0, 0]], [[0, 0], [0, 0]]]) [2, 1] 3
              = Inr ([], [])"
    by (simp add: demo_model_def)
  from predict_intents_topk[OF h1 h2 demo_forward h3]
  obtain ic ip where
    "predict ?c [[7, 8], [9, 0]] [2, 1] 3 = Inr (([], []), (ic, ip))"
    "length ic = 2" "length ip = 2"
    "\<forall>i<2. topk_of (softmax ([[0, 0], [0, 0]] ! i)) (nat 3) (ic ! i) (ip ! i)"
    by auto
  then show ?thesis using h1 by (auto simp: numeral_2_eq_2 less_Suc_eq)
qed

text \<open>
  Claim C4 (as amended). The ranking of the intents goes by probability only: a class of
  strictly higher probability stands before one of lower probability. Among classes
  of equal probability the order is the one \<^verbatim>\<open>torch.sort\<close> returns, which the call does
  not fix (it does not ask for a stable sort): over 17 classes of equal score there is
  a run where the higher ids come first.
\<close>

theorem intent_ranking_by_probability:
  assumes srt: "sorts_descending (sort_row c)"
    and fw: "forward c w lens = Inr (lgts, igts)"
    and pr: "predict c w lens topk = Inr ((sc, sp), (ic, ip))"
  shows "\<forall>i<length igts. \<forall>p<length (ic ! i). \<forall>q<length (ic ! i).
           softmax (igts ! i) ! (ic ! i ! q) < softmax (igts ! i) ! (ic ! i ! p) \<longrightarrow> p < q"
proof (intro allI impI)
  fix i p q
  assume i: "i < length igts" and p: "p < length (ic ! i)" and q: "q < length (ic ! i)"
    and lt: "softmax (igts ! i) ! (ic ! i ! q) < softmax (igts ! i) ! (ic ! i ! p)"
  from predict_InrD[OF pr] fw obtain sc' lp where
    dec: "decode c (map (map log_softmax) lgts) lens topk = Inr (sc', lp)" by auto
  from predict_Inr[OF fw dec] pr
  have ic: "ic = map (\<lambda>row. py_slice_to topk (snd (sort_row c (softmax row)))) igts"
    by simp
  let ?P = "softmax (igts ! i)"
  let ?m = "if 0 \<le> topk then nat topk else length ?P - nat (- topk)"
  have tk: "topk_of ?P ?m (ic ! i) (py_slice_to topk (fst (sort_row c ?P)))"
    using sort_row_topk_of[OF srt, of ?P topk] i ic by simp
  let ?ps = "py_slice_to topk (fst (sort_row c ?P))"
  from tk have ps: "?ps = map (\<lambda>n. ?P ! n) (ic ! i)" and so: "sorted_wrt (\<lambda>a b. b \<le> a) ?ps"
    unfolding topk_of_def by blast+
  have lps: "length ?ps = length (ic ! i)" using ps by (metis length_map)
  show "p < q"
  proof (rule ccontr)
    assume "\<not> p < q"
    then consider "p = q" | "q < p" by linarith
    then show False
    proof cases
      case 1 with lt show False by simp
    next
      case 2
      have "?ps ! p \<le> ?ps ! q"
        using sorted_wrt_nth_less[OF so 2] p lps by simp
      moreover have "?ps ! p = ?P ! (ic ! i ! p)" "?ps ! q = ?P ! (ic ! i ! q)"
        using ps p q by (metis nth_map)+
      ultimately show False using lt by simp
    qed
  qed
qed

lemma upt_2: "[0..<2] = [0, Suc 0]"
  by (simp add: upt_conv_Cons numeral_2_eq_2)

lemma softmax_00: "softmax [0, 0] = [1 / 2, 1 / 2]"
  by (simp add: softmax_def)

subsection \<open>The beam search keeps paths and their scores\<close>

lemma collect_Inr:
  "collect rs = Inr xs \<Longrightarrow> length xs = length rs \<and> (\<forall>i<length rs. rs ! i = Inr (xs ! i))"
proof (induction rs arbitrary: xs)
  case Nil
  then show ?case by simp
next
  case (Cons r rs)
  then show ?case
    by (auto split: sum.splits simp: nth_Cons split: nat.splits)
qed

lemma collect_all_Inr:
  "(\<forall>r\<in>set rs. \<exists>x. r = Inr x) \<Longrightarrow> \<exists>xs. collect rs = Inr xs"
  by (induction rs) (auto split: sum.splits)

lemma set_top_hyps: "set (top_hyps k hs) \<subseteq> set hs"
  unfolding top_hyps_def using set_take_subset[of "nat k" "sort_key (\<lambda>h. - snd h) hs"] by simp

lemma length_top_hyps: "length (top_hyps k hs) \<le> nat k"
  by (simp add: top_hyps_def)

lemma path_of_init: "h \<in> set (init_beam k row) \<Longrightarrow> path_of [row] h"
proof -
  assume "h \<in> set (init_beam k row)"
  then have "h \<in> set (map (\<lambda>l. ([l], row ! l)) [0..<length row])"
    using set_top_hyps unfolding init_beam_def by blast
  then show ?thesis by (auto simp: path_of_def)
qed

lemma path_of_snoc:
  assumes "path_of rows h" and "l < length row"
  shows "path_of (rows @ [row]) (fst h @ [l], snd h + row ! l)"
proof -
  from assms(1) have len: "length (fst h) = length rows"
    and lab: "\<forall>t<length rows. fst h ! t < length (rows ! t)"
    and sc: "snd h = sum_list (map (\<lambda>t. rows ! t ! (fst h ! t)) [0..<length rows])"
    unfolding path_of_def by blast+
  have 1: "\<forall>t<length (rows @ [row]). (fst h @ [l]) ! t < length ((rows @ [row]) ! t)"
    using len lab assms(2) by (auto simp: nth_append less_Suc_eq)
  define F where "F = (\<lambda>t. (rows @ [row]) ! t ! ((fst h @ [l]) ! t))"
  have a: "map F [0..<length rows] = map (\<lambda>t. rows ! t ! (fst h ! t)) [0..<length rows]"
    by (rule map_cong) (simp_all add: F_def nth_append len)
  have b: "F (length rows) = row ! l"
    by (simp add: F_def nth_append len)
  have "sum_list (map F [0..<length (rows @ [row])]) = sum_list (map F [0..<length rows]) + F (length rows)"
    by simp
  then have "sum_list (map F [0..<length (rows @ [row])]) = snd h + row ! l"
    by (simp only: a b sc)
  then have 2: "snd h + row ! l
          = sum_list (map (\<lambda>t. (rows @ [row]) ! t ! ((fst h @ [l]) ! t)) [0..<length (rows @ [row])])"
    by (simp only: F_def)
  show ?thesis unfolding path_of_def using len 1 2 by simp
qed

lemma path_of_extend:
  assumes "\<forall>h\<in>set beam. path_of rows h" and "h' \<in> set (extend_beam k row beam)"
  shows "path_of (rows @ [row]) h'"
proof -
  from assms(2) have
    "h' \<in> set (concat (map (\<lambda>h. map (\<lambda>l. (fst h @ [l], snd h + row ! l)) [0..<length row]) beam))"
    using set_top_hyps unfolding extend_beam_def by blast
  then obtain h l where "h \<in> set beam" "l < length row" "h' = (fst h @ [l], snd h + row ! l)"
    by auto
  with assms(1) show ?thesis using path_of_snoc by blast
qed

lemma path_of_foldl:
  assumes "\<forall>h\<in>set beam. path_of rows h"
  shows "\<forall>h\<in>set (foldl (\<lambda>beam row. extend_beam k row beam) beam rest). path_of (rows @ rest) h"
  using assms
proof (induction rest arbitrary: beam rows)
  case Nil
  then show ?case by simp
next
  case (Cons row rest)
  have "\<forall>h\<in>set (extend_beam k row beam). path_of (rows @ [row]) h"
    using path_of_extend[OF Cons.prems] by blast
  from Cons.IH[OF this] show ?case by simp
qed

lemma length_foldl_extend:
  "length beam \<le> nat k \<Longrightarrow> length (foldl (\<lambda>beam row. extend_beam k row beam) beam rest) \<le> nat k"
  by (induction rest arbitrary: beam) (simp_all add: extend_beam_def length_top_hyps)

lemma decode_example_Inr:
  assumes "decode_example k logp n = Inr beam"
  shows "1 \<le> n \<and> n \<le> length logp \<and> length beam \<le> nat k
           \<and> (\<forall>h\<in>set beam. path_of (take n logp) h)"
proof -
  from assms have n: "n \<le> length logp"
    by (auto simp: decode_example_def split: if_splits)
  from assms obtain row0 rest where t: "take n logp = row0 # rest"
    and b: "beam = foldl (\<lambda>beam row. extend_beam k row beam) (init_beam k row0) rest"
    by (auto simp: decode_example_def split: if_splits list.splits)
  from t have n1: "1 \<le> n" by (cases n) auto
  have "\<forall>h\<in>set (init_beam k row0). path_of [row0] h" using path_of_init by blast
  from path_of_foldl[OF this, of k rest] have p: "\<forall>h\<in>set beam. path_of (take n logp) h"
    using b t by simp
  have "length beam \<le> nat k"
    unfolding b by (rule length_foldl_extend) (simp add: init_beam_def length_top_hyps)
  with n n1 p show ?thesis by blast
qed

lemma decode_example_total:
  assumes "1 \<le> n" and "n \<le> length logp"
  shows "\<exists>beam. decode_example k logp n = Inr beam"
proof -
  from assms have "take n logp \<noteq> []" by auto
  then obtain row0 rest where "take n logp = row0 # rest" by (cases "take n logp") auto
  with assms show ?thesis by (simp add: decode_example_def)
qed

lemma decode_example_zero: "decode_example k logp 0 = Inl InvalidInputError"
  by (simp add: decode_example_def)

lemma beam_decode_zero: "0 \<in> set lens \<Longrightarrow> beam_decode logprobs lens k = Inl InvalidInputError"
  by (simp add: beam_decode_def)

lemma beam_decode_Inr:
  assumes "beam_decode logprobs lens k = Inr (sc, lp)"
  shows "length logprobs = length lens \<and> length sc = length lens \<and> length lp = length lens
     \<and> (\<forall>i<length lens. 1 \<le> lens ! i \<and> lens ! i \<le> length (logprobs ! i)
           \<and> length (sc ! i) \<le> nat k \<and> length (lp ! i) = length (sc ! i)
           \<and> (\<forall>j<length (sc ! i). path_of (take (lens ! i) (logprobs ! i)) (sc ! i ! j, lp ! i ! j)))"
proof -
  let ?rs = "map (\<lambda>p. decode_example k (fst p) (snd p)) (zip logprobs lens)"
  from assms have len: "length logprobs = length lens"
    by (auto simp: beam_decode_def split: if_splits)
  from assms obtain beams where c: "collect ?rs = Inr beams"
    and sc: "sc = map (map fst) beams" and lp: "lp = map (map snd) beams"
    by (auto simp: beam_decode_def split: if_splits sum.splits)
  from collect_Inr[OF c] len have bl: "length beams = length lens"
    and bi: "\<forall>i<length lens. decode_example k (logprobs ! i) (lens ! i) = Inr (beams ! i)"
    by auto
  have "\<forall>i<length lens. 1 \<le> lens ! i \<and> lens ! i \<le> length (logprobs ! i)
           \<and> length (sc ! i) \<le> nat k \<and> length (lp ! i) = length (sc ! i)
           \<and> (\<forall>j<length (sc ! i). path_of (take (lens ! i) (logprobs ! i)) (sc ! i ! j, lp ! i ! j))"
  proof (intro allI impI)
    fix i assume i: "i < length lens"
    from bi i have d: "decode_example k (logprobs ! i) (lens ! i) = Inr (beams ! i)" by blast
    note e = decode_example_Inr[OF d]
    have s: "sc ! i = map fst (beams ! i)" "lp ! i = map snd (beams ! i)"
      using sc lp i bl by simp_all
    have "\<forall>j<length (sc ! i). path_of (take (lens ! i) (logprobs ! i)) (sc ! i ! j, lp ! i ! j)"
    proof (intro allI impI)
      fix j assume j: "j < length (sc ! i)"
      then have "beams ! i ! j \<in> set (beams ! i)" using s by simp
      with e have "path_of (take (lens ! i) (logprobs ! i)) (beams ! i ! j)" by blast
      then show "path_of (take (lens ! i) (logprobs ! i)) (sc ! i ! j, lp ! i ! j)"
        using s j by simp
    qed
    with e s show "1 \<le> lens ! i \<and> lens ! i \<le> length (logprobs ! i)
           \<and> length (sc ! i) \<le> nat k \<and> length (lp ! i) = length (sc ! i)
           \<and> (\<forall>j<length (sc ! i). path_of (take (lens ! i) (logprobs ! i)) (sc ! i ! j, lp ! i ! j))"
      by simp
  qed
  with len sc lp bl show ?thesis by simp
qed

lemma beam_decode_total:
  assumes "length logprobs = length lens"
    and "\<forall>i<length lens. 1 \<le> lens ! i \<and> lens ! i \<le> length (logprobs ! i)"
  shows "\<exists>sc lp. beam_decode logprobs lens k = Inr (sc, lp)"
proof -
  let ?rs = "map (\<lambda>p. decode_example k (fst p) (snd p)) (zip logprobs lens)"
  have z: "0 \<notin> set lens"
  proof
    assume "0 \<in> set lens"
    then obtain i where "i < length lens" "lens ! i = 0" by (auto simp: in_set_conv_nth)
    with assms(2) show False by force
  qed
  have "\<forall>r\<in>set ?rs. \<exists>x. r = Inr x"
  proof
    fix r assume "r \<in> set ?rs"
    then obtain i where i: "i < length lens" and r: "r = decode_example k (logprobs ! i) (lens ! i)"
      using assms(1) by (auto simp: in_set_conv_nth)
    from assms(2) i have "1 \<le> lens ! i" "lens ! i \<le> length (logprobs ! i)" by auto
    from decode_example_total[OF this] r show "\<exists>x. r = Inr x" by blast
  qed
  from collect_all_Inr[OF this] obtain beams where "collect ?rs = Inr beams" by blast
  with z assms(1) show ?thesis by (simp add: beam_decode_def)
qed

subsection \<open>The small model, evaluated\<close>

lemma demo_forward_any:
  "forward (demo_model srt dec) [[7, 8], [9, 0]] lens
     = Inr ([[[0, 0], [0, 0]], [[0, 0], [0, 0]]], [[0, 0], [0, 0]])"
  by (simp add: forward_def forward_slots_def demo_model_def)

lemma log_softmax_00: "log_softmax [0, 0] = [- ln 2, - ln 2]"
  by (simp add: log_softmax_def)

lemma demo_beam:
  "beam_decode [[[- ln 2, - ln 2], [- ln 2, - ln 2]], [[- ln 2, - ln 2], [- ln 2, - ln 2]]] [2, 1] 2
     = Inr ([[[0, 0], [0, 1]], [[0], [1]]],
            [[- ln 2 + - ln 2, - ln 2 + - ln 2], [- ln 2, - ln 2]])"
  by (simp add: beam_decode_def decode_example_def init_beam_def extend_beam_def top_hyps_def upt_2)

lemma demo_predict:
  "predict (demo_model sort_low_first beam_decode) [[7, 8], [9, 0]] [2, 1] 2
       = Inr (([[[0, 0], [0, 1]], [[0], [1]]], [[1 / 4, 1 / 4], [1 / 2, 1 / 2]]),
              ([[0, 1], [0, 1]], [[1 / 2, 1 / 2], [1 / 2, 1 / 2]]))"
proof -
  let ?c = "demo_model sort_low_first beam_decode"
  have h1: "decode ?c = beam_decode" by (simp add: demo_model_def)
  have d: "decode ?c (map (map log_softmax) [[[0, 0], [0, 0]], [[0, 0], [0, 0]]]) [2, 1] 2
     = Inr ([[[0, 0], [0, 1]], [[0], [1]]],
            [[- ln 2 + - ln 2, - ln 2 + - ln 2], [- ln 2, - ln 2]])"
    using demo_beam by (simp add: h1 log_softmax_00)
  have s: "sort_row ?c [1 / 2, 1 / 2] = ([1 / 2, 1 / 2], [0, 1])"
    by (simp add: demo_model_def sort_low_first_def upt_2)
  have e2: "exp (- ln 2) = (1 / 2 :: real)"
    by (simp add: exp_minus)
  have "exp (- ln 2 + - ln 2) = exp (- ln 2) * exp (- ln (2 :: real))"
    by (rule exp_add)
  then have e: "exp (- ln 2 + - ln 2) = (1 / 4 :: real)"
    by (simp add: e2)
  have m: "map (map exp) [[- ln 2 + - ln 2, - ln 2 + - ln 2], [- ln 2, - ln 2]]
             = [[1 / 4, 1 / 4], [1 / 2, 1 / 2 :: real]]"
    by (simp only: list.map e e2)
  show ?thesis
    unfolding predict_Inr[OF demo_forward_any d] m
    by (simp add: softmax_00 s py_slice_to_def)
qed

lemma demo_conforms:
  "conforms (demo_model srt dec) (RNNBasedJLU_init hdim wdim nw 1 1)"
  by (auto simp: conforms_def demo_model_def RNNBasedJLU_init_def)


lemma unflatten_map_concat:
  "unflatten (map length hs) (map f (concat hs)) = map (map f) hs"
  by (induction hs) simp_all

lemma demo_forward_shape:
  "forward (demo_model srt dec) w lens = Inr (map (map (\<lambda>t. [0, 0])) w, map (\<lambda>r. [0, 0]) w)"
proof -
  let ?hs = "map (map (\<lambda>t. [real t])) w"
  have "unflatten (map length ?hs) (map (\<lambda>r. [0, 0::real]) (concat ?hs)) = map (map (\<lambda>r. [0, 0])) ?hs"
    by (rule unflatten_map_concat)
  then show ?thesis
    by (simp add: forward_def forward_slots_def demo_model_def comp_def)
qed

lemma scores_forward:
  "forward (scores_model scores srt) w lens
     = Inr (map (map (\<lambda>t. [0, 0])) w, map (\<lambda>r. scores) w)"
proof -
  let ?hs = "map (map (\<lambda>t. [real t])) w"
  have "unflatten (map length ?hs) (map (\<lambda>r. [0, 0::real]) (concat ?hs)) = map (map (\<lambda>r. [0, 0])) ?hs"
    by (rule unflatten_map_concat)
  then show ?thesis
    by (simp add: forward_def forward_slots_def scores_model_def comp_def)
qed

lemma beam_one:
  "0 \<le> k \<Longrightarrow> 2 \<le> k \<Longrightarrow> beam_decode [[[- ln 2, - ln 2]]] [1] k = Inr ([[[0], [1]]], [[- ln 2, - ln 2]])"
  by (simp add: beam_decode_def decode_example_def init_beam_def top_hyps_def upt_2)

lemma scores_decode:
  "2 \<le> k \<Longrightarrow> decode (scores_model scores srt) (map (map log_softmax) [[[0, 0]]]) [1] k
     = Inr ([[[0], [1]]], [[- ln 2, - ln 2]])"
  using beam_one[of k] by (simp add: scores_model_def log_softmax_00)

lemma exp_ln_half: "exp (- ln 2) = (1 / 2 :: real)"
  by (simp add: exp_minus)

lemma exp_ln_quarter: "exp (- ln 2 + - ln 2) = (1 / 4 :: real)"
proof -
  have "exp (- ln 2 + - ln 2) = exp (- ln 2) * exp (- ln (2 :: real))"
    by (rule exp_add)
  then show ?thesis by (simp add: exp_ln_half)
qed

lemma scores_predict:
  assumes k: "2 \<le> k"
  shows "predict (scores_model scores srt) [[7]] [1] k
     = Inr (([[[0], [1]]], [[1 / 2, 1 / 2]]),
            ([py_slice_to k (snd (srt (softmax scores)))], [py_slice_to k (fst (srt (softmax scores)))]))"
proof -
  have f: "forward (scores_model scores srt) [[7]] [1] = Inr ([[[0, 0]]], [scores])"
    by (simp add: scores_forward)
  have e2: "exp (- ln 2) = (1 / 2 :: real)"
    by (simp add: exp_minus)
  show ?thesis
    unfolding predict_Inr[OF f scores_decode[OF k]]
    by (simp add: e2 scores_model_def)
qed

subsection \<open>The intent ranking on tied and on different scores\<close>

lemma softmax_01: "softmax [0, 1] ! 0 < softmax [0, 1] ! 1"
  by (simp add: softmax_def divide_strict_right_mono add_pos_pos)

lemma sort_low_first_01:
  "sort_low_first (softmax [0, 1]) = ([softmax [0, 1] ! 1, softmax [0, 1] ! 0], [1, 0])"
  using softmax_01 by (simp add: sort_low_first_def length_softmax upt_2 Let_def)

lemma softmax_tied: "softmax (replicate 17 0) = replicate 17 (1 / 17)"
  by (simp add: softmax_def sum_list_replicate)

lemma rev_upt_17:
  "rev [0..<17] = [16, 15, 14, 13, 12, 11, 10, 9, 8, 7, 6, 5, 4, 3, 2, 1, 0::nat]"
  by code_simp

lemma sort_stable_to_16_tied:
  "sort_stable_to_16 (replicate 17 (1 / 17))
     = (replicate 17 (1 / 17), [16, 15, 14, 13, 12, 11, 10, 9, 8, 7, 6, 5, 4, 3, 2, 1, 0])"
proof -
  let ?P = "replicate 17 (1 / 17 :: real)"
  let ?f = "\<lambda>i. - (?P ! i)"
  have m: "map ?f (rev [0..<17]) = replicate 17 (- (1 / 17))"
    unfolding rev_upt_17 by (simp add: eval_nat_numeral)
  have "sorted (map ?f (rev [0..<17]))" unfolding m by (simp add: sorted_replicate)
  then have s: "sort_key ?f (rev [0..<17]) = rev [0..<17]" by (rule sort_key_id_if_sorted)
  have v: "map (\<lambda>i. ?P ! i) (rev [0..<17]) = ?P"
    unfolding rev_upt_17 by (simp add: eval_nat_numeral)
  show ?thesis
    unfolding sort_stable_to_16_def Let_def using s v rev_upt_17 by simp
qed

theorem intent_ranking_by_probability_witness:
  "sorts_descending (sort_row (scores_model [0, 1] sort_low_first))
   \<and> predict (scores_model [0, 1] sort_low_first) [[7]] [1] 2
       = Inr (([[[0], [1]]], [[1 / 2, 1 / 2]]),
              ([[1, 0]], [[softmax [0, 1] ! 1, softmax [0, 1] ! 0]]))
   \<and> softmax [0, 1] ! ([1, 0] ! 1) < softmax [0, 1] ! ([1, 0] ! 0)
   \<and> (0::nat) < 1"
proof -
  let ?c = "scores_model [0, 1] sort_low_first"
  have h1: "sorts_descending (sort_row ?c)"
    by (simp add: scores_model_def sort_low_first_ok)
  have h2: "forward ?c [[7]] [1] = Inr ([[[0, 0]]], [[0, 1]])"
    by (simp add: scores_forward)
  have p: "predict ?c [[7]] [1] 2
       = Inr (([[[0], [1]]], [[1 / 2, 1 / 2]]),
              ([[1, 0]], [[softmax [0, 1] ! 1, softmax [0, 1] ! 0]]))"
    by (subst scores_predict) (simp_all add: sort_low_first_01 py_slice_to_def)
  have lt: "softmax [0, 1] ! ([1, 0] ! 1) < softmax [0, 1] ! ([1, 0] ! 0)"
    using softmax_01 by simp
  from intent_ranking_by_probability[OF h1 h2 p, rule_format, of 0 0 1] lt
  have "(0::nat) < 1" by simp
  with h1 p lt show ?thesis by (intro conjI)
qed

theorem intent_ties_counterexample:
  "sorts_descending (sort_row (scores_model (replicate 17 0) sort_stable_to_16))
   \<and> predict (scores_model (replicate 17 0) sort_stable_to_16) [[7]] [1] 17
       = Inr (([[[0], [1]]], [[1 / 2, 1 / 2]]),
              ([[16, 15, 14, 13, 12, 11, 10, 9, 8, 7, 6, 5, 4, 3, 2, 1, 0]],
               [replicate 17 (1 / 17)]))
   \<and> \<not> ties_lower_id_first [16, 15, 14, 13, 12, 11, 10, 9, 8, 7, 6, 5, 4, 3, 2, 1, 0]
          (replicate 17 (1 / 17))"
proof -
  let ?c = "scores_model (replicate 17 0) sort_stable_to_16"
  let ?ids = "[16, 15, 14, 13, 12, 11, 10, 9, 8, 7, 6, 5, 4, 3, 2, 1, 0::nat]"
  have h1: "sorts_descending (sort_row ?c)"
    by (simp add: scores_model_def sort_stable_to_16_ok)
  have p: "predict ?c [[7]] [1] 17
       = Inr (([[[0], [1]]], [[1 / 2, 1 / 2]]), ([?ids], [replicate 17 (1 / 17)]))"
    by (subst scores_predict) (simp_all add: softmax_tied sort_stable_to_16_tied py_slice_to_def)
  have t: "\<not> ties_lower_id_first ?ids (replicate 17 (1 / 17))"
  proof
    assume "ties_lower_id_first ?ids (replicate 17 (1 / 17))"
    then have "0 < length ?ids \<longrightarrow> 1 < length ?ids
        \<longrightarrow> (0::nat) < 1 \<and> replicate 17 (1 / 17 :: real) ! 0 = replicate 17 (1 / 17) ! 1
        \<longrightarrow> ?ids ! 0 < ?ids ! 1"
      unfolding ties_lower_id_first_def by blast
    then show False by simp
  qed
  from h1 p t show ?thesis by (intro conjI)
qed

subsection \<open>The slot candidates\<close>

text \<open>
  Claim C2. With the decoder of the spec, \<^verbatim>\<open>predict\<close> returns for every example of a
  well-shaped batch (lengths between 1 and the positions scored) at most \<open>k\<close> label
  sequences, each as long as the example's own entry of \<open>lens\<close>, whatever the padded
  length of the batch is; and it does return.
\<close>

theorem predict_slot_lengths:
  assumes dec: "decode c = beam_decode"
    and fw: "forward c w lens = Inr (lgts, igts)"
    and len: "length lgts = length lens"
    and rng: "\<forall>i<length lens. 1 \<le> lens ! i \<and> lens ! i \<le> length (lgts ! i)"
  shows "\<exists>sc sp r. predict c w lens topk = Inr ((sc, sp), r)
      \<and> length sc = length lens \<and> length sp = length lens
      \<and> (\<forall>i<length lens. length (sc ! i) \<le> nat topk \<and> length (sp ! i) = length (sc ! i)
            \<and> (\<forall>s\<in>set (sc ! i). length s = lens ! i))"
proof -
  let ?lp = "map (map log_softmax) lgts"
  have l1: "length ?lp = length lens" using len by simp
  have l2: "\<forall>i<length lens. 1 \<le> lens ! i \<and> lens ! i \<le> length (?lp ! i)"
    using rng len by simp
  from beam_decode_total[OF l1 l2] obtain sc lp where
    bd: "beam_decode ?lp lens topk = Inr (sc, lp)" by blast
  then have d: "decode c ?lp lens topk = Inr (sc, lp)" using dec by simp
  note p = predict_Inr[OF fw d]
  note b = beam_decode_Inr[OF bd]
  have "\<forall>i<length lens. length (sc ! i) \<le> nat topk
            \<and> length (map (map exp) lp ! i) = length (sc ! i)
            \<and> (\<forall>s\<in>set (sc ! i). length s = lens ! i)"
  proof (intro allI impI)
    fix i assume i: "i < length lens"
    with b have bi: "lens ! i \<le> length (?lp ! i)" "length (sc ! i) \<le> nat topk"
      "length (lp ! i) = length (sc ! i)"
      "\<forall>j<length (sc ! i). path_of (take (lens ! i) (?lp ! i)) (sc ! i ! j, lp ! i ! j)"
      by blast+
    have "\<forall>s\<in>set (sc ! i). length s = lens ! i"
    proof
      fix s assume "s \<in> set (sc ! i)"
      then obtain j where j: "j < length (sc ! i)" "sc ! i ! j = s"
        by (auto simp: in_set_conv_nth)
      with bi(4) have "path_of (take (lens ! i) (?lp ! i)) (s, lp ! i ! j)" by blast
      then have "length s = length (take (lens ! i) (?lp ! i))" by (simp add: path_of_def)
      with bi(1) show "length s = lens ! i" by simp
    qed
    moreover have "length (map (map exp) lp ! i) = length (sc ! i)"
      using bi(3) b i by simp
    ultimately show "length (sc ! i) \<le> nat topk
            \<and> length (map (map exp) lp ! i) = length (sc ! i)
            \<and> (\<forall>s\<in>set (sc ! i). length s = lens ! i)"
      using bi(2) by blast
  qed
  moreover have "length sc = length lens" "length (map (map exp) lp) = length lens"
    using b by simp_all
  ultimately show ?thesis using p by blast
qed

theorem predict_slot_lengths_witness:
  "decode (demo_model sort_low_first beam_decode) = beam_decode
   \<and> predict (demo_model sort_low_first beam_decode) [[7, 8], [9, 0]] [2, 1] 2
       = Inr (([[[0, 0], [0, 1]], [[0], [1]]], [[1 / 4, 1 / 4], [1 / 2, 1 / 2]]),
              ([[0, 1], [0, 1]], [[1 / 2, 1 / 2], [1 / 2, 1 / 2]]))
   \<and> (\<exists>sc sp r. predict (demo_model sort_low_first beam_decode) [[7, 8], [9, 0]] [2, 1] 2
                   = Inr ((sc, sp), r)
        \<and> length sc = 2
        \<and> list_all (\<lambda>s. length s = 2) (sc ! 0) \<and> list_all (\<lambda>s. length s = 1) (sc ! 1))"
proof -
  let ?c = "demo_model sort_low_first beam_decode"
  have h1: "decode ?c = beam_decode" by (simp add: demo_model_def)
  have h3: "length [[[0, 0], [0, 0]], [[0, 0], [0, 0::real]]] = length [2, 1::nat]" by simp
  have h4: "\<forall>i<length [2, 1::nat]. 1 \<le> [2, 1::nat] ! i
              \<and> [2, 1] ! i \<le> length ([[[0, 0], [0, 0]], [[0, 0], [0, 0::real]]] ! i)"
    by (simp add: less_Suc_eq numeral_2_eq_2)
  from predict_slot_lengths[OF h1 demo_forward_any h3 h4, of 2]
  obtain sc sp r where q: "predict ?c [[7, 8], [9, 0]] [2, 1] 2 = Inr ((sc, sp), r)"
    "length sc = 2" "\<forall>s\<in>set (sc ! 0). length s = 2" "\<forall>s\<in>set (sc ! 1). length s = 1"
    by (auto simp: less_Suc_eq numeral_2_eq_2)
  then have "\<exists>sc sp r. predict ?c [[7, 8], [9, 0]] [2, 1] 2 = Inr ((sc, sp), r)
        \<and> length sc = 2
        \<and> list_all (\<lambda>s. length s = 2) (sc ! 0) \<and> list_all (\<lambda>s. length s = 1) (sc ! 1)"
    by (auto simp: list_all_iff)
  with h1 demo_predict show ?thesis by blast
qed

text \<open>
  Claim C5. With the decoder of the spec, a batch with a length entry 0 yields no
  result: whenever the forward pass returns, \<^verbatim>\<open>predict\<close> fails with InvalidInputError,
  and it returns a candidate set in no case.
\<close>

theorem predict_zero_length:
  assumes dec: "decode c = beam_decode" and z: "0 \<in> set lens"
  shows "(\<forall>r. predict c w lens topk \<noteq> Inr r)
     \<and> (\<forall>lgts igts. forward c w lens = Inr (lgts, igts)
           \<longrightarrow> predict c w lens topk = Inl InvalidInputError)"
  using assms by (auto simp: predict_def beam_decode_zero split: sum.splits)

theorem predict_zero_length_witness:
  "decode (demo_model sort_low_first beam_decode) = beam_decode \<and> 0 \<in> set [2, 0::nat]
   \<and> predict (demo_model sort_low_first beam_decode) [[7, 8], [9, 0]] [2, 0] 2
        = Inl InvalidInputError"
proof -
  let ?c = "demo_model sort_low_first beam_decode"
  have h1: "decode ?c = beam_decode" by (simp add: demo_model_def)
  have h2: "0 \<in> set [2, 0::nat]" by simp
  from predict_zero_length[OF h1 h2, of "[[7, 8], [9, 0]]" 2] demo_forward_any[of sort_low_first beam_decode "[2, 0]"]
  have "predict ?c [[7, 8], [9, 0]] [2, 0] 2 = Inl InvalidInputError" by blast
  with h1 h2 show ?thesis by blast
qed

text \<open>
  Claim C6. \<^verbatim>\<open>predict\<close> hands the decoder the log-softmax of the label scores over the
  class axis (at every position the exponentials sum to 1) and applies \<open>exp\<close> once, to
  the scores the decoder returns: the slot probabilities are the exponentials of the
  decoder's cumulative log-probabilities. With the decoder of the spec each of these is
  the sum of the log-probabilities of the labels chosen, position by position.
\<close>

theorem predict_slot_probs_exp:
  assumes fw: "forward c w lens = Inr (lgts, igts)"
    and dec: "decode c (map (map log_softmax) lgts) lens topk = Inr (sc, lp)"
  shows "(\<exists>r. predict c w lens topk = Inr ((sc, map (map exp) lp), r))
     \<and> (\<forall>ex\<in>set lgts. \<forall>row\<in>set ex. row \<noteq> [] \<longrightarrow> sum_list (map exp (log_softmax row)) = 1)
     \<and> (decode c = beam_decode \<longrightarrow>
          (\<forall>i<length lp. \<forall>j<length (lp ! i).
             lp ! i ! j
               = sum_list (map (\<lambda>t. log_softmax (lgts ! i ! t) ! (sc ! i ! j ! t)) [0..<lens ! i])))"
proof -
  have 1: "\<exists>r. predict c w lens topk = Inr ((sc, map (map exp) lp), r)"
    using predict_Inr[OF fw dec] by blast
  have 2: "\<forall>ex\<in>set lgts. \<forall>row\<in>set ex. row \<noteq> [] \<longrightarrow> sum_list (map exp (log_softmax row)) = 1"
    by (simp add: sum_list_exp_log_softmax)
  have 3: "decode c = beam_decode \<longrightarrow>
          (\<forall>i<length lp. \<forall>j<length (lp ! i).
             lp ! i ! j
               = sum_list (map (\<lambda>t. log_softmax (lgts ! i ! t) ! (sc ! i ! j ! t)) [0..<lens ! i]))"
  proof (intro impI allI)
    fix i j
    assume b: "decode c = beam_decode" and i: "i < length lp" and j: "j < length (lp ! i)"
    let ?lp = "map (map log_softmax) lgts"
    from dec b have bd: "beam_decode ?lp lens topk = Inr (sc, lp)" by simp
    note r = beam_decode_Inr[OF bd]
    from r i have il: "i < length lens" "i < length lgts" by simp_all
    from r il(1) have ri: "lens ! i \<le> length (?lp ! i)" "length (lp ! i) = length (sc ! i)"
      "\<forall>j<length (sc ! i). path_of (take (lens ! i) (?lp ! i)) (sc ! i ! j, lp ! i ! j)"
      by blast+
    from ri(1) have n: "lens ! i \<le> length (?lp ! i)" .
    from ri(2,3) j have p: "path_of (take (lens ! i) (?lp ! i)) (sc ! i ! j, lp ! i ! j)"
      by simp
    have n': "lens ! i \<le> length (lgts ! i)" using n il by simp
    from p n have "lp ! i ! j
       = sum_list (map (\<lambda>t. take (lens ! i) (?lp ! i) ! t ! (sc ! i ! j ! t)) [0..<lens ! i])"
      by (simp add: path_of_def min_def)
    also have "map (\<lambda>t. take (lens ! i) (?lp ! i) ! t ! (sc ! i ! j ! t)) [0..<lens ! i]
       = map (\<lambda>t. log_softmax (lgts ! i ! t) ! (sc ! i ! j ! t)) [0..<lens ! i]"
      by (rule map_cong) (use il n' in simp_all)
    finally show "lp ! i ! j
       = sum_list (map (\<lambda>t. log_softmax (lgts ! i ! t) ! (sc ! i ! j ! t)) [0..<lens ! i])" .
  qed
  from 1 2 3 show ?thesis by blast
qed

theorem predict_slot_probs_exp_witness:
  "forward (demo_model sort_low_first beam_decode) [[7, 8], [9, 0]] [2, 1]
       = Inr ([[[0, 0], [0, 0]], [[0, 0], [0, 0]]], [[0, 0], [0, 0]])
   \<and> decode (demo_model sort_low_first beam_decode)
        (map (map log_softmax) [[[0, 0], [0, 0]], [[0, 0], [0, 0]]]) [2, 1] 2
       = Inr ([[[0, 0], [0, 1]], [[0], [1]]],
              [[- ln 2 + - ln 2, - ln 2 + - ln 2], [- ln 2, - ln 2]])
   \<and> (\<exists>r. predict (demo_model sort_low_first beam_decode) [[7, 8], [9, 0]] [2, 1] 2
       = Inr (([[[0, 0], [0, 1]], [[0], [1]]],
               map (map exp) [[- ln 2 + - ln 2, - ln 2 + - ln 2], [- ln 2, - ln 2]]), r))
   \<and> sum_list (map exp (log_softmax [0, 0])) = 1
   \<and> decode (demo_model sort_low_first beam_decode) = beam_decode"
proof -
  let ?c = "demo_model sort_low_first beam_decode"
  have h1: "decode ?c = beam_decode" by (simp add: demo_model_def)
  have d: "decode ?c (map (map log_softmax) [[[0, 0], [0, 0]], [[0, 0], [0, 0]]]) [2, 1] 2
     = Inr ([[[0, 0], [0, 1]], [[0], [1]]],
            [[- ln 2 + - ln 2, - ln 2 + - ln 2], [- ln 2, - ln 2]])"
    using demo_beam by (simp add: h1 log_softmax_00)
  note t = predict_slot_probs_exp[OF demo_forward_any d]
  from t have r: "\<exists>r. predict ?c [[7, 8], [9, 0]] [2, 1] 2
       = Inr (([[[0, 0], [0, 1]], [[0], [1]]],
               map (map exp) [[- ln 2 + - ln 2, - ln 2 + - ln 2], [- ln 2, - ln 2]]), r)"
    by blast
  from t have "sum_list (map exp (log_softmax [0, 0])) = 1" by simp
  with r h1 d demo_forward_any show ?thesis by blast
qed

subsection \<open>The label classes of a constructed model\<close>

lemma take1_sort_key_strict_min:
  fixes f :: "'a \<Rightarrow> real"
  assumes x: "x \<in> set xs" and m: "\<forall>y\<in>set xs. y \<noteq> x \<longrightarrow> f x < f y"
  shows "take 1 (sort_key f xs) = [x]"
proof -
  let ?ys = "sort_key f xs"
  have s: "set ?ys = set xs" by simp
  have "length ?ys = length xs" by simp
  moreover have "xs \<noteq> []" using x by auto
  ultimately have "?ys \<noteq> []" by (metis length_0_conv)
  then obtain y ys' where ys: "?ys = y # ys'" by (cases ?ys) auto
  have so: "sorted (map f ?ys)" by (rule sorted_sort_key)
  have "y = x"
  proof (rule ccontr)
    assume ne: "y \<noteq> x"
    from ys s have "y \<in> set xs" by (metis list.set_intros(1))
    with m ne have lt: "f x < f y" by blast
    from x s ys ne have "x \<in> set ys'" by (metis set_ConsD)
    with so ys have "f y \<le> f x" by simp
    with lt show False by simp
  qed
  with ys show ?thesis by simp
qed

lemma unflatten_rows: "ex \<in> set (unflatten ns rows) \<Longrightarrow> set ex \<subseteq> set rows"
proof (induction ns arbitrary: rows)
  case Nil
  then show ?case by simp
next
  case (Cons n ns)
  from Cons.prems consider "ex = take n rows" | "ex \<in> set (unflatten ns (drop n rows))" by auto
  then show ?case
  proof cases
    case 1
    then show ?thesis using set_take_subset by fast
  next
    case 2
    from Cons.IH[OF this] show ?thesis using set_drop_subset by fast
  qed
qed

lemma forward_widths:
  assumes cf: "conforms c m" and fw: "forward c w lens = Inr (lgts, igts)"
  shows "(\<forall>ex\<in>set lgts. \<forall>row\<in>set ex. length row = num_labels (slot_classifier m))
       \<and> (\<forall>row\<in>set igts. length row = num_labels (intent_classifier m))"
proof -
  from fw obtain hs pooled out where
    i: "intent_classifier_call c pooled = Inr igts"
    and s: "slot_classifier_call c (concat hs) = Inr out"
    and l: "lgts = unflatten (map length hs) out"
    by (auto simp: forward_def forward_slots_def split: sum.splits if_splits)
  from cf s have so: "\<forall>row\<in>set out. length row = num_labels (slot_classifier m)"
    unfolding conforms_def by blast
  from cf i have io: "\<forall>row\<in>set igts. length row = num_labels (intent_classifier m)"
    unfolding conforms_def by blast
  have "\<forall>ex\<in>set lgts. \<forall>row\<in>set ex. length row = num_labels (slot_classifier m)"
    using unflatten_rows so unfolding l by blast
  with io show ?thesis by blast
qed

lemma predict_intent_ids_bound:
  assumes srt: "sorts_descending (sort_row c)"
    and fw: "forward c w lens = Inr (lgts, igts)"
    and pr: "predict c w lens topk = Inr ((sc, sp), (ic, ip))"
    and wd: "\<forall>row\<in>set igts. length row = n"
  shows "\<forall>ids\<in>set ic. \<forall>i\<in>set ids. i < n"
proof (intro ballI)
  fix ids i assume ids: "ids \<in> set ic" and i: "i \<in> set ids"
  from predict_InrD[OF pr] fw obtain sc' lp where
    dec: "decode c (map (map log_softmax) lgts) lens topk = Inr (sc', lp)" by auto
  from predict_Inr[OF fw dec] pr
  have "ic = map (\<lambda>row. py_slice_to topk (snd (sort_row c (softmax row)))) igts" by simp
  with ids obtain row where row: "row \<in> set igts"
    and e: "ids = py_slice_to topk (snd (sort_row c (softmax row)))" by auto
  from sort_row_topk_of[OF srt, of "softmax row" topk] e
  have "\<forall>i\<in>set ids. i < length (softmax row)" unfolding topk_of_def by blast
  with i row wd show "i < n" by (simp add: length_softmax)
qed

lemma predict_slot_ids_bound:
  assumes b: "decode c = beam_decode"
    and fw: "forward c w lens = Inr (lgts, igts)"
    and pr: "predict c w lens topk = Inr ((sc, sp), r)"
    and wd: "\<forall>ex\<in>set lgts. \<forall>row\<in>set ex. length row = n"
  shows "\<forall>ex\<in>set sc. \<forall>s\<in>set ex. \<forall>l\<in>set s. l < n"
proof (intro ballI)
  fix ex s l assume ex: "ex \<in> set sc" and s: "s \<in> set ex" and l: "l \<in> set s"
  let ?lp = "map (map log_softmax) lgts"
  from predict_InrD[OF pr] fw obtain sc' lp where
    dec: "decode c ?lp lens topk = Inr (sc', lp)" by auto
  from predict_Inr[OF fw dec] pr have "sc' = sc" by simp
  with dec b have bd: "beam_decode ?lp lens topk = Inr (sc, lp)" by simp
  note q = beam_decode_Inr[OF bd]
  from ex obtain i where i: "i < length sc" "sc ! i = ex" by (auto simp: in_set_conv_nth)
  from s i obtain j where j: "j < length (sc ! i)" "sc ! i ! j = s" by (auto simp: in_set_conv_nth)
  from l obtain t where t: "t < length s" "s ! t = l" by (auto simp: in_set_conv_nth)
  from q i have il: "i < length lens" "i < length lgts" by simp_all
  from q il(1) have qi: "lens ! i \<le> length (?lp ! i)"
      "\<forall>j<length (sc ! i). path_of (take (lens ! i) (?lp ! i)) (sc ! i ! j, lp ! i ! j)"
    by blast+
  from qi(2) j have p: "path_of (take (lens ! i) (?lp ! i)) (s, lp ! i ! j)" by auto
  from p have ls: "length s = length (take (lens ! i) (?lp ! i))"
    and lb: "\<forall>t<length (take (lens ! i) (?lp ! i)). s ! t < length (take (lens ! i) (?lp ! i) ! t)"
    by (simp_all add: path_of_def)
  from t ls lb have 1: "l < length (take (lens ! i) (?lp ! i) ! t)" by auto
  from t ls qi(1) have tn: "t < lens ! i" "t < length (lgts ! i)" using il by simp_all
  then have 2: "take (lens ! i) (?lp ! i) ! t = log_softmax (lgts ! i ! t)" using il by simp
  have "lgts ! i \<in> set lgts" "lgts ! i ! t \<in> set (lgts ! i)" using il tn by simp_all
  with wd have "length (lgts ! i ! t) = n" by blast
  with 1 2 show "l < n" by (simp add: length_log_softmax)
qed

lemma last_class_forward:
  "forward (last_class_model ns ni) [[0]] [1] = Inr ([[replicate ns 0 @ [1]]], [replicate ni 0 @ [1]])"
  by (simp add: forward_def forward_slots_def last_class_model_def)

lemma last_class_conforms:
  "conforms (last_class_model ns ni) (RNNBasedJLU_init hdim wdim nw ns ni)"
  by (auto simp: conforms_def last_class_model_def RNNBasedJLU_init_def)

lemma last_log_softmax_best:
  fixes n :: nat
  defines "r \<equiv> log_softmax (replicate n 0 @ [1])"
  shows "length r = Suc n" and "\<forall>l<Suc n. l \<noteq> n \<longrightarrow> r ! l < r ! n"
proof -
  show "length r = Suc n" by (simp add: r_def length_log_softmax)
  show "\<forall>l<Suc n. l \<noteq> n \<longrightarrow> r ! l < r ! n"
  proof (intro allI impI)
    fix l assume "l < Suc n" "l \<noteq> n"
    then have l: "l < n" by simp
    then show "r ! l < r ! n"
      by (simp add: r_def log_softmax_def nth_append)
  qed
qed

lemma last_softmax_best:
  fixes n :: nat
  defines "P \<equiv> softmax (replicate n 0 @ [1])"
  shows "length P = Suc n" and "\<forall>l<Suc n. l \<noteq> n \<longrightarrow> P ! l < P ! n"
proof -
  show "length P = Suc n" by (simp add: P_def length_softmax)
  have pos: "0 < sum_list (map exp (replicate n 0 @ [1::real]))"
    by (rule sum_list_exp_pos) simp
  show "\<forall>l<Suc n. l \<noteq> n \<longrightarrow> P ! l < P ! n"
  proof (intro allI impI)
    fix l assume "l < Suc n" "l \<noteq> n"
    then have l: "l < n" by simp
    have "P ! l = exp 0 / sum_list (map exp (replicate n 0 @ [1::real]))"
      using l unfolding P_def by (subst softmax_nth) (simp_all add: nth_append)
    moreover have "P ! n = exp 1 / sum_list (map exp (replicate n 0 @ [1::real]))"
      unfolding P_def by (subst softmax_nth) (simp_all add: nth_append)
    ultimately show "P ! l < P ! n" using pos by (simp add: divide_strict_right_mono)
  qed
qed

lemma init_beam_last:
  assumes len: "length r = Suc n" and best: "\<forall>l<Suc n. l \<noteq> n \<longrightarrow> r ! l < r ! n"
  shows "init_beam 1 r = [([n], r ! n)]"
proof -
  let ?hs = "map (\<lambda>l. ([l], r ! l)) [0..<length r]"
  have x: "([n], r ! n) \<in> set ?hs" using len by auto
  have m: "\<forall>y\<in>set ?hs. y \<noteq> ([n], r ! n) \<longrightarrow> - snd ([n], r ! n) < - snd y"
    using len best by auto
  from take1_sort_key_strict_min[of "([n], r ! n)" ?hs "\<lambda>h. - snd h", OF x m]
  show ?thesis by (simp add: init_beam_def top_hyps_def)
qed

lemma sort_low_first_last:
  assumes len: "length P = Suc n" and best: "\<forall>l<Suc n. l \<noteq> n \<longrightarrow> P ! l < P ! n"
  shows "py_slice_to 1 (snd (sort_low_first P)) = [n]"
    and "py_slice_to 1 (fst (sort_low_first P)) = [P ! n]"
proof -
  have x: "n \<in> set [0..<length P]" using len by simp
  have m: "\<forall>y\<in>set [0..<length P]. y \<noteq> n \<longrightarrow> - (P ! n) < - (P ! y)"
    using len best by auto
  note t = take1_sort_key_strict_min[of n "[0..<length P]" "\<lambda>i. - (P ! i)", OF x m]
  show "py_slice_to 1 (snd (sort_low_first P)) = [n]"
    using t by (simp add: py_slice_to_def sort_low_first_def Let_def)
  have "take 1 (map (\<lambda>i. P ! i) (sort_key (\<lambda>i. - (P ! i)) [0..<length P])) = [P ! n]"
    unfolding take_map t by simp
  then show "py_slice_to 1 (fst (sort_low_first P)) = [P ! n]"
    by (simp add: py_slice_to_def sort_low_first_def Let_def)
qed

lemma last_class_predict:
  "\<exists>sp ip. predict (last_class_model ns ni) [[0]] [1] 1 = Inr (([[[ns]]], sp), ([[ni]], ip))"
proof -
  let ?c = "last_class_model ns ni"
  let ?r = "log_softmax (replicate ns 0 @ [1])"
  have ib: "init_beam 1 ?r = [([ns], ?r ! ns)]"
    by (rule init_beam_last[OF last_log_softmax_best])
  have d: "decode ?c (map (map log_softmax) [[replicate ns 0 @ [1]]]) [1] 1
             = Inr ([[[ns]]], [[?r ! ns]])"
    by (simp add: last_class_model_def beam_decode_def decode_example_def ib length_log_softmax)
  have sr: "sort_row ?c = sort_low_first" by (simp add: last_class_model_def)
  show ?thesis
    unfolding predict_Inr[OF last_class_forward d] sr
    by (simp add: sort_low_first_last[OF last_softmax_best])
qed

text \<open>
  Claim C10. A constructed \<^verbatim>\<open>RNNBasedJLU\<close> has a slot classifier over \<open>num_slots + 1\<close>
  classes and an intent classifier over \<open>num_intents + 1\<close>. So, with modules that match
  the model, every predicted intent id is at most \<open>num_intents\<close> and (the decoder being
  the one of the spec) every predicted slot id at most \<open>num_slots\<close>; both bounds are
  reached by a model that favours the last class. \<^verbatim>\<open>prepare_model\<close> takes the two
  numbers from the sizes of the label and intent vocabularies, so the last class is an
  id with no vocabulary entry.
\<close>

theorem jlu_label_classes:
  fixes hdim wdim :: int and nw ns ni :: nat
  defines "m \<equiv> RNNBasedJLU_init hdim wdim nw ns ni"
  shows "num_labels (slot_classifier m) = num_slots m + 1
     \<and> num_labels (intent_classifier m) = num_intents m + 1
     \<and> num_slots m = ns \<and> num_intents m = ni
     \<and> (\<forall>c w lens topk sc sp ic ip.
          conforms c m \<and> sorts_descending (sort_row c)
            \<and> predict c w lens topk = Inr ((sc, sp), (ic, ip))
          \<longrightarrow> (\<forall>ids\<in>set ic. \<forall>i\<in>set ids. i \<le> num_intents m)
              \<and> (decode c = beam_decode \<longrightarrow> (\<forall>ex\<in>set sc. \<forall>s\<in>set ex. \<forall>l\<in>set s. l \<le> num_slots m)))
     \<and> (\<exists>c sp ip. conforms c m \<and> sorts_descending (sort_row c) \<and> decode c = beam_decode
          \<and> predict c [[0]] [1] 1 = Inr (([[[num_slots m]]], sp), ([[num_intents m]], ip)))
     \<and> (\<forall>ld a vocabs m' v. prepare_model ld a vocabs = Inr (m', v)
          \<longrightarrow> num_slots m' = length (vocabs ! 1) \<and> num_intents m' = length (vocabs ! 2)
              \<and> num_labels (slot_classifier m') = length (vocabs ! 1) + 1
              \<and> num_labels (intent_classifier m') = length (vocabs ! 2) + 1
              \<and> py_index (vocabs ! 1) (num_slots m') = Inl IndexError
              \<and> py_index (vocabs ! 2) (num_intents m') = Inl IndexError)"
proof -
  have a: "num_labels (slot_classifier m) = num_slots m + 1"
    "num_labels (intent_classifier m) = num_intents m + 1" "num_slots m = ns" "num_intents m = ni"
    by (simp_all add: m_def RNNBasedJLU_init_def)
  have b: "\<forall>c w lens topk sc sp ic ip.
          conforms c m \<and> sorts_descending (sort_row c)
            \<and> predict c w lens topk = Inr ((sc, sp), (ic, ip))
          \<longrightarrow> (\<forall>ids\<in>set ic. \<forall>i\<in>set ids. i \<le> num_intents m)
              \<and> (decode c = beam_decode \<longrightarrow> (\<forall>ex\<in>set sc. \<forall>s\<in>set ex. \<forall>l\<in>set s. l \<le> num_slots m))"
  proof (intro allI impI, elim conjE)
    fix c w lens topk sc sp ic ip
    assume cf: "conforms c m" and srt: "sorts_descending (sort_row c)"
      and pr: "predict c w lens topk = Inr ((sc, sp), (ic, ip))"
    from predict_InrD[OF pr] obtain lgts igts where fw: "forward c w lens = Inr (lgts, igts)"
      by blast
    from forward_widths[OF cf fw] a
    have ws: "\<forall>ex\<in>set lgts. \<forall>row\<in>set ex. length row = Suc (num_slots m)"
      and wi: "\<forall>row\<in>set igts. length row = Suc (num_intents m)" by simp_all
    have 1: "\<forall>ids\<in>set ic. \<forall>i\<in>set ids. i \<le> num_intents m"
      using predict_intent_ids_bound[OF srt fw pr wi] by (simp add: less_Suc_eq_le)
    have 2: "decode c = beam_decode \<longrightarrow> (\<forall>ex\<in>set sc. \<forall>s\<in>set ex. \<forall>l\<in>set s. l \<le> num_slots m)"
    proof
      assume bd: "decode c = beam_decode"
      from predict_slot_ids_bound[OF bd fw pr ws]
      show "\<forall>ex\<in>set sc. \<forall>s\<in>set ex. \<forall>l\<in>set s. l \<le> num_slots m"
        by (simp add: less_Suc_eq_le)
    qed
    from 1 2 show "(\<forall>ids\<in>set ic. \<forall>i\<in>set ids. i \<le> num_intents m)
              \<and> (decode c = beam_decode \<longrightarrow> (\<forall>ex\<in>set sc. \<forall>s\<in>set ex. \<forall>l\<in>set s. l \<le> num_slots m))"
      by blast
  qed
  have c: "\<exists>c sp ip. conforms c m \<and> sorts_descending (sort_row c) \<and> decode c = beam_decode
          \<and> predict c [[0]] [1] 1 = Inr (([[[num_slots m]]], sp), ([[num_intents m]], ip))"
  proof -
    let ?c = "last_class_model ns ni"
    have "conforms ?c m" unfolding m_def by (rule last_class_conforms)
    moreover have "sorts_descending (sort_row ?c)"
      by (simp add: last_class_model_def sort_low_first_ok)
    moreover have "decode ?c = beam_decode" by (simp add: last_class_model_def)
    moreover from last_class_predict[of ns ni] obtain sp ip where
      "predict ?c [[0]] [1] 1 = Inr (([[[num_slots m]]], sp), ([[num_intents m]], ip))"
      using a by auto
    ultimately show ?thesis by blast
  qed
  have d: "\<forall>ld a vocabs m' v. prepare_model ld a vocabs = Inr (m', v)
          \<longrightarrow> num_slots m' = length (vocabs ! 1) \<and> num_intents m' = length (vocabs ! 2)
              \<and> num_labels (slot_classifier m') = length (vocabs ! 1) + 1
              \<and> num_labels (intent_classifier m') = length (vocabs ! 2) + 1
              \<and> py_index (vocabs ! 1) (num_slots m') = Inl IndexError
              \<and> py_index (vocabs ! 2) (num_intents m') = Inl IndexError"
    by (auto simp: prepare_model_def py_index_def RNNBasedJLU_init_def Let_def
             split: sum.splits if_splits option.splits)
  from a b c d show ?thesis by blast
qed

theorem jlu_label_classes_witness:
  "conforms (demo_model sort_low_first beam_decode) (RNNBasedJLU_init 300 300 5 1 1)
   \<and> sorts_descending (sort_row (demo_model sort_low_first beam_decode))
   \<and> decode (demo_model sort_low_first beam_decode) = beam_decode
   \<and> predict (demo_model sort_low_first beam_decode) [[7, 8], [9, 0]] [2, 1] 2
       = Inr (([[[0, 0], [0, 1]], [[0], [1]]], [[1 / 4, 1 / 4], [1 / 2, 1 / 2]]),
              ([[0, 1], [0, 1]], [[1 / 2, 1 / 2], [1 / 2, 1 / 2]]))
   \<and> num_labels (slot_classifier (RNNBasedJLU_init 300 300 5 1 1)) = 2
   \<and> num_labels (intent_classifier (RNNBasedJLU_init 300 300 5 1 1)) = 2
   \<and> list_all (list_all (\<lambda>i. i \<le> num_intents (RNNBasedJLU_init 300 300 5 1 1))) [[0, 1], [0, 1]]
   \<and> list_all (list_all (list_all (\<lambda>l. l \<le> num_slots (RNNBasedJLU_init 300 300 5 1 1))))
        [[[0, 0], [0, 1]], [[0], [1]]]"
proof -
  let ?c = "demo_model sort_low_first beam_decode"
  let ?m = "RNNBasedJLU_init 300 300 5 1 1"
  have h1: "conforms ?c ?m" by (rule demo_conforms)
  have h2: "sorts_descending (sort_row ?c)" by (simp add: demo_model_def sort_low_first_ok)
  have h3: "decode ?c = beam_decode" by (simp add: demo_model_def)
  note t = jlu_label_classes[of 300 300 5 1 1]
  from t have n: "num_labels (slot_classifier ?m) = 2" "num_labels (intent_classifier ?m) = 2"
    by simp_all
  from t h1 h2 h3 demo_predict
  have "(\<forall>ids\<in>set [[0, 1], [0, 1::nat]]. \<forall>i\<in>set ids. i \<le> num_intents ?m)
      \<and> (\<forall>ex\<in>set [[[0, 0], [0, 1]], [[0], [1::nat]]]. \<forall>s\<in>set ex. \<forall>l\<in>set s. l \<le> num_slots ?m)"
    by blast
  then have "list_all (list_all (\<lambda>i. i \<le> num_intents ?m)) [[0, 1], [0, 1]]
     \<and> list_all (list_all (list_all (\<lambda>l. l \<le> num_slots ?m))) [[[0, 0], [0, 1]], [[0], [1]]]"
    by (simp add: list_all_iff)
  with h1 h2 h3 demo_predict n show ?thesis by blast
qed

subsection \<open>The output files\<close>

lemma is_space_newline: "is_space (CHR 0x0A)"
  by (simp add: is_space_def)

lemma split_from_words:
  "(\<forall>ch\<in>set cur. \<not> is_space ch) \<Longrightarrow> wd \<in> set (split_from cur s) \<Longrightarrow> ch \<in> set wd
     \<Longrightarrow> \<not> is_space ch"
proof (induction s arbitrary: cur)
  case Nil
  then show ?case by (cases "cur = []") auto
next
  case (Cons c cs)
  show ?case
  proof (cases "is_space c")
    case True
    with Cons.prems(2) consider "wd = cur" | "wd \<in> set (split_from [] cs)"
      by (cases "cur = []") auto
    then show ?thesis
    proof cases
      case 1
      with Cons.prems(1,3) show ?thesis by blast
    next
      case 2
      from Cons.IH[OF _ 2 Cons.prems(3)] show ?thesis by simp
    qed
  next
    case False
    with Cons.prems(2) have w: "wd \<in> set (split_from (cur @ [c]) cs)" by simp
    from False Cons.prems(1) have "\<forall>ch\<in>set (cur @ [c]). \<not> is_space ch" by simp
    from Cons.IH[OF this w Cons.prems(3)] show ?thesis .
  qed
qed

lemma py_join_chars:
  "set (py_join sep ws) \<subseteq> set sep \<union> (\<Union>wd\<in>set ws. set wd)"
  by (induction sep ws rule: py_join.induct) auto

lemma normalised_label_no_newline:
  "CHR 0x0A \<notin> set (py_join '' '' (py_split label))"
proof
  assume "CHR 0x0A \<in> set (py_join '' '' (py_split label))"
  with py_join_chars[of "'' ''" "py_split label"]
  have "CHR 0x0A \<in> set '' '' \<union> (\<Union>wd\<in>set (py_split label). set wd)" by blast
  then obtain wd where "wd \<in> set (py_split label)" "CHR 0x0A \<in> set wd" by auto
  then have "\<not> is_space (CHR 0x0A)"
    using split_from_words[of "[]" wd label "CHR 0x0A"] by (simp add: py_split_def)
  with is_space_newline show False by simp
qed

lemma lines_from_line:
  "CHR 0x0A \<notin> set s \<Longrightarrow> lines_from cur (s @ CHR 0x0A # rest) = (cur @ s) # lines_from [] rest"
  by (induction s arbitrary: cur) auto

lemma write_lines_Cons: "write_lines (s # data) = s @ CHR 0x0A # write_lines data"
  by (simp add: write_lines_def)

lemma file_lines_write_lines:
  "(\<forall>s\<in>set data. CHR 0x0A \<notin> set s) \<Longrightarrow> file_lines (write_lines data) = data"
proof (induction data)
  case Nil
  then show ?case by (simp add: file_lines_def write_lines_def)
next
  case (Cons s data)
  then have "lines_from [] (s @ CHR 0x0A # write_lines data) = ([] @ s) # lines_from [] (write_lines data)"
    by (intro lines_from_line) simp
  with Cons show ?case by (simp add: file_lines_def write_lines_Cons)
qed

lemma save_paths_4:
  "\<exists>p1 p2 p3 p4. save_paths a = [p1, p2, p3, p4]"
  by (simp add: save_paths_def)

lemma save_writes:
  assumes opn: "\<forall>p\<in>set (save_paths a). opn p"
    and dist: "distinct (save_paths a)"
    and nl1: "\<forall>s\<in>set intents. CHR 0x0A \<notin> set s"
    and nl2: "\<forall>p. CHR 0x0A \<notin> set (str p)"
  shows "\<exists>fs'.
       save opn str a labels intents pl p_i fsys = (None, fs')
     \<and> (\<forall>q. q \<notin> set (save_paths a) \<longrightarrow> fs' q = fsys q)
     \<and> map fs' (save_paths a)
         = [Some (write_lines (map (\<lambda>label. py_join '' '' (py_split label)) labels)),
            Some (write_lines intents), Some (write_lines (map str pl)),
            Some (write_lines (map str p_i))]
     \<and> map (\<lambda>q. map_option file_lines (fs' q)) (save_paths a)
         = [Some (map (\<lambda>label. py_join '' '' (py_split label)) labels),
            Some intents, Some (map str pl), Some (map str p_i)]"
proof -
  obtain p1 p2 p3 p4 where ps: "save_paths a = [p1, p2, p3, p4]"
    using save_paths_4 by blast
  let ?c1 = "write_lines (map (\<lambda>label. py_join '' '' (py_split label)) labels)"
  let ?c2 = "write_lines intents"
  let ?c3 = "write_lines (map str pl)"
  let ?c4 = "write_lines (map str p_i)"
  define fs' where "fs' = fsys(p1 \<mapsto> ?c1, p2 \<mapsto> ?c2, p3 \<mapsto> ?c3, p4 \<mapsto> ?c4)"
  from opn ps have o: "opn p1" "opn p2" "opn p3" "opn p4" by simp_all
  have sv: "save opn str a labels intents pl p_i fsys = (None, fs')"
    using o by (simp add: save_def Let_def ps fs'_def)
  have out: "\<forall>q. q \<notin> set (save_paths a) \<longrightarrow> fs' q = fsys q"
    by (simp add: ps fs'_def)
  have look: "map fs' (save_paths a) = [Some ?c1, Some ?c2, Some ?c3, Some ?c4]"
    using dist by (auto simp: ps fs'_def)
  have l1: "file_lines ?c1 = map (\<lambda>label. py_join '' '' (py_split label)) labels"
    by (rule file_lines_write_lines) (auto simp: normalised_label_no_newline)
  have l2: "file_lines ?c2 = intents"
    by (rule file_lines_write_lines) (rule nl1)
  have l3: "file_lines ?c3 = map str pl"
    by (rule file_lines_write_lines) (use nl2 in auto)
  have l4: "file_lines ?c4 = map str p_i"
    by (rule file_lines_write_lines) (use nl2 in auto)
  have "map (\<lambda>q. map_option file_lines (fs' q)) (save_paths a)
          = map (map_option file_lines) (map fs' (save_paths a))"
    by simp
  also have "\<dots> = [Some (map (\<lambda>label. py_join '' '' (py_split label)) labels),
            Some intents, Some (map str pl), Some (map str p_i)]"
    unfolding look by (simp add: l1 l2 l3 l4)
  finally have rd: "map (\<lambda>q. map_option file_lines (fs' q)) (save_paths a)
         = [Some (map (\<lambda>label. py_join '' '' (py_split label)) labels),
            Some intents, Some (map str pl), Some (map str p_i)]" .
  show ?thesis
    by (rule exI[of _ fs']) (use sv out look rd in simp)
qed

lemma demo_save_paths:
  "save_paths demo_args
     = [''out/label.txt'', ''out/intent.txt'', ''out/label-probs.txt'', ''out/intent-probs.txt'']"
  by (simp add: save_paths_def demo_args_def path_join_def)

lemma demo_str_no_newline: "\<forall>p. CHR 0x0A \<notin> set (demo_str p)"
  by (simp add: demo_str_def)

lemma demo_normalise: "py_join '' '' (py_split ''O  B'') = ''O B''" "py_join '' '' (py_split ''O'') = ''O''"
  by (simp_all add: py_split_def is_space_def)


text \<open>
  Claim C7. Where the four output paths are distinct and open for writing, \<^verbatim>\<open>save\<close>
  writes these four files and no other: the label sequences (words joined by single
  spaces), the intents, the label probabilities and the intent probabilities. Each file
  is the samples in the order given, every one followed by a newline; read back line by
  line (no intent and no printed probability holding a newline), file \<open>j\<close> has one line
  per example and line \<open>i\<close> of every file belongs to example \<open>i\<close>.
\<close>

theorem save_four_files:
  assumes opn: "\<forall>p\<in>set (save_paths a). opn p"
    and dist: "distinct (save_paths a)"
    and par: "length intents = length labels" "length pl = length labels"
             "length p_i = length labels"
    and nl1: "\<forall>s\<in>set intents. CHR 0x0A \<notin> set s"
    and nl2: "\<forall>p. CHR 0x0A \<notin> set (str p)"
  shows "\<exists>fs'.
       save opn str a labels intents pl p_i fsys = (None, fs')
     \<and> length (save_paths a) = 4
     \<and> (\<forall>q. q \<notin> set (save_paths a) \<longrightarrow> fs' q = fsys q)
     \<and> map fs' (save_paths a)
         = [Some (write_lines (map (\<lambda>label. py_join '' '' (py_split label)) labels)),
            Some (write_lines intents), Some (write_lines (map str pl)),
            Some (write_lines (map str p_i))]
     \<and> map (\<lambda>q. map_option file_lines (fs' q)) (save_paths a)
         = [Some (map (\<lambda>label. py_join '' '' (py_split label)) labels),
            Some intents, Some (map str pl), Some (map str p_i)]
     \<and> (\<forall>q\<in>set (save_paths a). \<exists>c. fs' q = Some c \<and> length (file_lines c) = length labels)"
proof -
  from save_writes[OF opn dist nl1 nl2, of labels pl p_i fsys] obtain fs' where
    all: "save opn str a labels intents pl p_i fsys = (None, fs')
     \<and> (\<forall>q. q \<notin> set (save_paths a) \<longrightarrow> fs' q = fsys q)
     \<and> map fs' (save_paths a)
         = [Some (write_lines (map (\<lambda>label. py_join '' '' (py_split label)) labels)),
            Some (write_lines intents), Some (write_lines (map str pl)),
            Some (write_lines (map str p_i))]
     \<and> map (\<lambda>q. map_option file_lines (fs' q)) (save_paths a)
         = [Some (map (\<lambda>label. py_join '' '' (py_split label)) labels),
            Some intents, Some (map str pl), Some (map str p_i)]"
    by (rule exE)
  from all have sv: "save opn str a labels intents pl p_i fsys = (None, fs')"
    and out: "\<forall>q. q \<notin> set (save_paths a) \<longrightarrow> fs' q = fsys q"
    and look: "map fs' (save_paths a)
         = [Some (write_lines (map (\<lambda>label. py_join '' '' (py_split label)) labels)),
            Some (write_lines intents), Some (write_lines (map str pl)),
            Some (write_lines (map str p_i))]"
    and rd: "map (\<lambda>q. map_option file_lines (fs' q)) (save_paths a)
         = [Some (map (\<lambda>label. py_join '' '' (py_split label)) labels),
            Some intents, Some (map str pl), Some (map str p_i)]"
    by simp_all
  have four: "length (save_paths a) = 4" by (simp add: save_paths_def)
  obtain p1 p2 p3 p4 where ps: "save_paths a = [p1, p2, p3, p4]"
    using save_paths_4 by blast
  let ?c1 = "write_lines (map (\<lambda>label. py_join '' '' (py_split label)) labels)"
  let ?c2 = "write_lines intents"
  let ?c3 = "write_lines (map str pl)"
  let ?c4 = "write_lines (map str p_i)"
  from look ps have f: "fs' p1 = Some ?c1" "fs' p2 = Some ?c2" "fs' p3 = Some ?c3"
    "fs' p4 = Some ?c4" by simp_all
  from rd ps f have g: "length (file_lines ?c1) = length labels"
    "length (file_lines ?c2) = length intents" "length (file_lines ?c3) = length pl"
    "length (file_lines ?c4) = length p_i" by simp_all
  have n: "\<forall>q\<in>set (save_paths a). \<exists>c. fs' q = Some c \<and> length (file_lines c) = length labels"
    unfolding ps using f g par by simp
  show ?thesis
    by (rule exI[of _ fs']) (use sv four out look rd n in simp)
qed

theorem save_four_files_witness:
  "list_all (\<lambda>p. True) (save_paths demo_args) \<and> distinct (save_paths demo_args)
   \<and> (\<exists>fs'. save (\<lambda>p. True) demo_str demo_args [''O  B'', ''O''] [''fly'', ''fare'']
               [1 / 4, 1 / 2] [1 / 2, 1 / 2] Map.empty = (None, fs')
        \<and> fs' ''out/other.txt'' = None
        \<and> map (\<lambda>q. map_option file_lines (fs' q))
             [''out/label.txt'', ''out/intent.txt'', ''out/label-probs.txt'', ''out/intent-probs.txt'']
            = [Some [''O B'', ''O''], Some [''fly'', ''fare''],
               Some [''0.25'', ''0.5''], Some [''0.5'', ''0.5'']])"
proof -
  have h1: "\<forall>p\<in>set (save_paths demo_args). (\<lambda>p. True) p" by simp
  have h2: "distinct (save_paths demo_args)" by (simp add: demo_save_paths)
  have h3: "length [''fly'', ''fare''] = length [''O  B'', ''O'']"
    "length [1 / 4, 1 / 2 :: real] = length [''O  B'', ''O'']"
    "length [1 / 2, 1 / 2 :: real] = length [''O  B'', ''O'']" by simp_all
  have h4: "\<forall>s\<in>set [''fly'', ''fare'']. CHR 0x0A \<notin> set s" by simp
  from save_four_files[OF h1 h2 h3 h4 demo_str_no_newline, of Map.empty]
  obtain fs' where all:
    "save (\<lambda>p. True) demo_str demo_args [''O  B'', ''O''] [''fly'', ''fare'']
               [1 / 4, 1 / 2] [1 / 2, 1 / 2] Map.empty = (None, fs')
     \<and> length (save_paths demo_args) = 4
     \<and> (\<forall>q. q \<notin> set (save_paths demo_args) \<longrightarrow> fs' q = Map.empty q)
     \<and> map fs' (save_paths demo_args)
         = [Some (write_lines (map (\<lambda>label. py_join '' '' (py_split label)) [''O  B'', ''O''])),
            Some (write_lines [''fly'', ''fare'']), Some (write_lines (map demo_str [1 / 4, 1 / 2])),
            Some (write_lines (map demo_str [1 / 2, 1 / 2]))]
     \<and> map (\<lambda>q. map_option file_lines (fs' q)) (save_paths demo_args)
         = [Some (map (\<lambda>label. py_join '' '' (py_split label)) [''O  B'', ''O'']),
            Some [''fly'', ''fare''], Some (map demo_str [1 / 4, 1 / 2]),
            Some (map demo_str [1 / 2, 1 / 2])]
     \<and> (\<forall>q\<in>set (save_paths demo_args).
           \<exists>c. fs' q = Some c \<and> length (file_lines c) = length [''O  B'', ''O''])"
    by (rule exE)
  from all have
    a: "save (\<lambda>p. True) demo_str demo_args [''O  B'', ''O''] [''fly'', ''fare'']
               [1 / 4, 1 / 2] [1 / 2, 1 / 2] Map.empty = (None, fs')"
    by (rule conjunct1)
  from all have b: "\<forall>q. q \<notin> set (save_paths demo_args) \<longrightarrow> fs' q = Map.empty q"
    by (elim conjE)
  from all have c: "map (\<lambda>q. map_option file_lines (fs' q)) (save_paths demo_args)
         = [Some (map (\<lambda>label. py_join '' '' (py_split label)) [''O  B'', ''O'']),
            Some [''fly'', ''fare''], Some (map demo_str [1 / 4, 1 / 2]),
            Some (map demo_str [1 / 2, 1 / 2])]"
    by (elim conjE)
  from b have b': "fs' ''out/other.txt'' = None" by (simp add: demo_save_paths)
  from c have c': "map (\<lambda>q. map_option file_lines (fs' q))
             [''out/label.txt'', ''out/intent.txt'', ''out/label-probs.txt'', ''out/intent-probs.txt'']
            = [Some [''O B'', ''O''], Some [''fly'', ''fare''],
               Some [''0.25'', ''0.5''], Some [''0.5'', ''0.5'']]"
    unfolding demo_save_paths by (simp add: demo_normalise demo_str_def)
  have l: "list_all (\<lambda>p. True) (save_paths demo_args)" by (simp add: list_all_iff)
  have "\<exists>fs'. save (\<lambda>p. True) demo_str demo_args [''O  B'', ''O''] [''fly'', ''fare'']
               [1 / 4, 1 / 2] [1 / 2, 1 / 2] Map.empty = (None, fs')
        \<and> fs' ''out/other.txt'' = None
        \<and> map (\<lambda>q. map_option file_lines (fs' q))
             [''out/label.txt'', ''out/intent.txt'', ''out/label-probs.txt'', ''out/intent-probs.txt'']
            = [Some [''O B'', ''O''], Some [''fly'', ''fare''],
               Some [''0.25'', ''0.5''], Some [''0.5'', ''0.5'']]"
    by (rule exI[of _ fs']) (intro conjI a b' c')
  with l h2 show ?thesis by (intro conjI)
qed

subsection \<open>The first candidate\<close>

lemma first_candidates_hd:
  "(\<forall>l\<in>set ls. l \<noteq> []) \<Longrightarrow> first_candidates ls = Inr (map hd ls)"
  unfolding first_candidates_def
proof (induction ls)
  case Nil
  then show ?case by simp
next
  case (Cons l ls)
  then have "l \<noteq> []" by simp
  then have "py_index l 0 = Inr (hd l)" by (cases l) (simp_all add: py_index_def)
  with Cons show ?case by simp
qed

lemma first_candidates_empty:
  "[] \<in> set ls \<Longrightarrow> first_candidates ls = Inl IndexError"
  unfolding first_candidates_def
proof (induction ls)
  case Nil
  then show ?case by simp
next
  case (Cons l ls)
  show ?case
  proof (cases l)
    case Nil
    then show ?thesis by (simp add: py_index_def)
  next
    case (Cons x xs)
    with Cons.prems Cons.IH show ?thesis by (simp add: py_index_def)
  qed
qed


lemma generate_output_first:
  assumes ne: "\<forall>l\<in>set labels. l \<noteq> []" "\<forall>l\<in>set intents. l \<noteq> []"
              "\<forall>l\<in>set pl. l \<noteq> []" "\<forall>l\<in>set p_i. l \<noteq> []"
    and opn: "\<forall>p\<in>set (save_paths a). opn p"
    and dist: "distinct (save_paths a)"
    and par: "length intents = length labels" "length pl = length labels"
             "length p_i = length labels"
    and nl1: "\<forall>l\<in>set intents. CHR 0x0A \<notin> set (hd l)"
    and nl2: "\<forall>p. CHR 0x0A \<notin> set (str p)"
  shows "\<exists>fs'.
       generate_output opn str a ((labels, pl), (intents, p_i)) fsys = (None, fs')
     \<and> (\<forall>q. q \<notin> set (save_paths a) \<longrightarrow> fs' q = fsys q)
     \<and> map (\<lambda>q. map_option file_lines (fs' q)) (save_paths a)
         = [Some (map (\<lambda>l. py_join '' '' (py_split (hd l))) labels),
            Some (map hd intents), Some (map (\<lambda>l. str (hd l)) pl),
            Some (map (\<lambda>l. str (hd l)) p_i)]
     \<and> (\<forall>q\<in>set (save_paths a). \<exists>c. fs' q = Some c \<and> length (file_lines c) = length labels)
     \<and> generate_output opn str a
          ((map (\<lambda>l. [hd l]) labels, map (\<lambda>l. [hd l]) pl),
           (map (\<lambda>l. [hd l]) intents, map (\<lambda>l. [hd l]) p_i)) fsys = (None, fs')"
proof -
  have go: "generate_output opn str a ((labels, pl), (intents, p_i)) fsys
          = save opn str a (map hd labels) (map hd intents) (map hd pl) (map hd p_i) fsys"
    using ne by (simp add: generate_output_def first_candidates_hd)
  have go1: "generate_output opn str a
          ((map (\<lambda>l. [hd l]) labels, map (\<lambda>l. [hd l]) pl),
           (map (\<lambda>l. [hd l]) intents, map (\<lambda>l. [hd l]) p_i)) fsys
          = save opn str a (map hd labels) (map hd intents) (map hd pl) (map hd p_i) fsys"
    by (simp add: generate_output_def first_candidates_hd comp_def)
  have nl1': "\<forall>s\<in>set (map hd intents). CHR 0x0A \<notin> set s" using nl1 by simp
  from save_writes[OF opn dist nl1' nl2, of "map hd labels" "map hd pl" "map hd p_i" fsys]
  obtain fs' where
    all: "save opn str a (map hd labels) (map hd intents) (map hd pl) (map hd p_i) fsys = (None, fs')
     \<and> (\<forall>q. q \<notin> set (save_paths a) \<longrightarrow> fs' q = fsys q)
     \<and> map fs' (save_paths a)
         = [Some (write_lines (map (\<lambda>label. py_join '' '' (py_split label)) (map hd labels))),
            Some (write_lines (map hd intents)), Some (write_lines (map str (map hd pl))),
            Some (write_lines (map str (map hd p_i)))]
     \<and> map (\<lambda>q. map_option file_lines (fs' q)) (save_paths a)
         = [Some (map (\<lambda>label. py_join '' '' (py_split label)) (map hd labels)),
            Some (map hd intents), Some (map str (map hd pl)), Some (map str (map hd p_i))]"
    by (rule exE)
  from all have sv: "save opn str a (map hd labels) (map hd intents) (map hd pl) (map hd p_i) fsys = (None, fs')"
    and out: "\<forall>q. q \<notin> set (save_paths a) \<longrightarrow> fs' q = fsys q"
    and rd: "map (\<lambda>q. map_option file_lines (fs' q)) (save_paths a)
         = [Some (map (\<lambda>label. py_join '' '' (py_split label)) (map hd labels)),
            Some (map hd intents), Some (map str (map hd pl)), Some (map str (map hd p_i))]"
    by simp_all
  have rd': "map (\<lambda>q. map_option file_lines (fs' q)) (save_paths a)
         = [Some (map (\<lambda>l. py_join '' '' (py_split (hd l))) labels),
            Some (map hd intents), Some (map (\<lambda>l. str (hd l)) pl),
            Some (map (\<lambda>l. str (hd l)) p_i)]"
    using rd by (simp add: comp_def)
  obtain p1 p2 p3 p4 where ps: "save_paths a = [p1, p2, p3, p4]"
    using save_paths_4 by blast
  from rd' ps obtain c1 c2 c3 c4 where f: "fs' p1 = Some c1" "fs' p2 = Some c2" "fs' p3 = Some c3"
    "fs' p4 = Some c4" by auto
  from rd' ps f have g: "length (file_lines c1) = length labels"
    "length (file_lines c2) = length intents" "length (file_lines c3) = length pl"
    "length (file_lines c4) = length p_i" by auto
  have n: "\<forall>q\<in>set (save_paths a). \<exists>c. fs' q = Some c \<and> length (file_lines c) = length labels"
    unfolding ps using f g par by simp
  show ?thesis
    by (rule exI[of _ fs']) (use go go1 sv out rd' n in simp)
qed

subsection \<open>The loader and the run over the batches\<close>

lemma concat_batch_sampler: "concat (batch_sampler n cur xs) = cur @ xs"
  by (induction xs arbitrary: cur) simp_all

lemma batch_sampler_sizes:
  "0 < n \<Longrightarrow> length cur < n \<Longrightarrow> \<forall>b\<in>set (batch_sampler n cur xs). b \<noteq> [] \<and> length b \<le> n"
proof (induction xs arbitrary: cur)
  case Nil
  then show ?case by simp
next
  case (Cons x xs)
  show ?case
  proof (cases "length (cur @ [x]) = n")
    case True
    with Cons.IH[of "[]"] Cons.prems show ?thesis by simp
  next
    case False
    with Cons.prems have "length (cur @ [x]) < n" by simp
    from Cons.IH[OF Cons.prems(1) this] False show ?thesis by simp
  qed
qed

lemma length_concat_map:
  "(\<forall>b\<in>set bs. length (g b) = length b) \<Longrightarrow> length (concat (map g bs)) = length (concat bs)"
  by (induction bs) simp_all

lemma run_batches_ok:
  assumes "list_all2 (\<lambda>b rs. step b = Inr rs) bs rss"
  shows "\<exists>w'. run_batches step bs w = (Inr (concat rss), w')
           \<and> scored w' = scored w @ bs \<and> files w' = files w"
  using assms
proof (induction bs rss arbitrary: w rule: list_all2_induct)
  case Nil
  then show ?case by simp
next
  case (Cons b bs rs rss)
  let ?w2 = "(on_batch_started b w)\<lparr> scored := scored (on_batch_started b w) @ [b] \<rparr>"
  from Cons.IH[of ?w2] obtain w' where
    r: "run_batches step bs ?w2 = (Inr (concat rss), w')"
    and s: "scored w' = scored ?w2 @ bs" and f: "files w' = files ?w2"
    by blast
  have "run_batches step (b # bs) w = (Inr (concat (rs # rss)), w')"
    using Cons.hyps(1) r by (simp add: Let_def)
  moreover have "scored w' = scored w @ b # bs"
    using s by (simp add: on_batch_started_def)
  moreover have "files w' = files w"
    using f by (simp add: on_batch_started_def)
  ultimately show ?case by blast
qed

lemma inference_ok:
  assumes "list_all2 (\<lambda>b rs. step b = Inr rs) bs rss"
  shows "\<exists>w'. inference step n bs w = (Inr (concat rss), w')
           \<and> scored w' = scored w @ bs \<and> files w' = files w"
proof -
  from run_batches_ok[OF assms, of "on_run_started n w"] obtain w1 where
    r: "run_batches step bs (on_run_started n w) = (Inr (concat rss), w1)"
    and s: "scored w1 = scored (on_run_started n w) @ bs"
    and f: "files w1 = files (on_run_started n w)"
    by blast
  have "inference step n bs w = (Inr (concat rss), on_run_finished w1)"
    using r by (simp add: inference_def)
  moreover have "scored (on_run_finished w1) = scored w @ bs"
    using s by (simp add: on_run_finished_def on_run_started_def)
  moreover have "files (on_run_finished w1) = files w"
    using f by (simp add: on_run_finished_def on_run_started_def)
  ultimately show ?thesis by blast
qed

lemma batch_step_Inr:
  assumes "tensor_feat b = (wt, lens) # rest" and "predict c wt lens topk = Inr out"
  shows "batch_step env c topk vocabs b = Inr (render env vocabs b out)"
  using assms by (simp add: batch_step_def select_data_def py_index_def model_call_def)

lemma batch_step_InrD:
  assumes "batch_step env c topk vocabs b = Inr rs"
  shows "\<exists>wt lens rest out. tensor_feat b = (wt, lens) # rest
           \<and> predict c wt lens topk = Inr out \<and> rs = render env vocabs b out"
proof (cases "tensor_feat b")
  case Nil
  with assms show ?thesis
    by (simp add: batch_step_def select_data_def py_index_def)
next
  case (Cons d rest)
  with assms show ?thesis
    by (cases d) (auto simp: batch_step_def select_data_def py_index_def model_call_def
        split: sum.splits)
qed

lemma generate_success:
  assumes bs: "1 \<le> batch_size a"
    and pm: "prepare_model (load_checkpoint env) a vocabs = Inr (mdl, vocab0)"
    and run: "inference
                (batch_step env (modules_of env (mdl\<lparr> model_beam_size := Some (beam_size a) \<rparr>))
                   (top_k a) (vocabs[0 := vocab0]))
                (length dataset)
                (map (collator env (map length vocabs))
                   (batch_sampler (nat (batch_size a)) [] dataset)) w
              = (Inr preds, w')"
    and out: "generate_output (can_open env) (str_float env) a
                ((map (\<lambda>r. fst (fst r)) preds, map (\<lambda>r. snd (fst r)) preds),
                 (map (\<lambda>r. fst (snd r)) preds, map (\<lambda>r. snd (snd r)) preds)) (files w')
              = (r, fsys)"
  shows "generate env a vocabs dataset w = (r, w'\<lparr> files := fsys \<rparr>)"
  using assms by (simp add: generate_def DataLoader_def Let_def)

lemma generate_output_heads:
  assumes "\<forall>l\<in>set labels. l \<noteq> []" "\<forall>l\<in>set intents. l \<noteq> []"
          "\<forall>l\<in>set pl. l \<noteq> []" "\<forall>l\<in>set p_i. l \<noteq> []"
  shows "generate_output opn str a ((labels, pl), (intents, p_i)) fsys
          = save opn str a (map hd labels) (map hd intents) (map hd pl) (map hd p_i) fsys"
  using assms by (simp add: generate_output_def first_candidates_hd)

lemma generate_no_candidate:
  assumes bs: "1 \<le> batch_size a"
    and pm: "prepare_model (load_checkpoint env) a vocabs = Inr (mdl, vocab0)"
    and run: "inference
                (batch_step env (modules_of env (mdl\<lparr> model_beam_size := Some (beam_size a) \<rparr>))
                   (top_k a) (vocabs[0 := vocab0]))
                (length dataset)
                (map (collator env (map length vocabs))
                   (batch_sampler (nat (batch_size a)) [] dataset)) w
              = (Inr preds, w')"
    and em: "\<exists>r\<in>set preds. fst (fst r) = []"
  shows "generate env a vocabs dataset w = (Some IndexError, w')"
proof -
  from em have "[] \<in> set (map (\<lambda>r. fst (fst r)) preds)" by force
  then have "first_candidates (map (\<lambda>r. fst (fst r)) preds) = Inl IndexError"
    by (rule first_candidates_empty)
  then have "generate_output (can_open env) (str_float env) a
                ((map (\<lambda>r. fst (fst r)) preds, map (\<lambda>r. snd (fst r)) preds),
                 (map (\<lambda>r. fst (snd r)) preds, map (\<lambda>r. snd (snd r)) preds)) (files w')
              = (Some IndexError, files w')"
    by (simp add: generate_output_def)
  from generate_success[OF bs pm run this] show ?thesis by simp
qed

subsection \<open>The small run, evaluated\<close>

lemma demo_batches:
  "batch_sampler (nat (batch_size demo_args)) [] demo_dataset
     = [[''hello there'', ''hello'', ''good morning''], [''hi'', ''see you'']]"
  by (simp add: demo_args_def demo_dataset_def eval_nat_numeral)

lemma demo_collate_3:
  "demo_collator (map length demo_vocabs) [''hello there'', ''hello'', ''good morning'']
     = \<lparr> string_feat = [''hello there'', ''hello'', ''good morning''],
         tensor_feat = [([[3, 0], [3, 4], [0, 0]], [2, 1, 2])] \<rparr>"
  by (simp add: demo_collator_def demo_word_id_def demo_vocabs_def py_split_def is_space_def Let_def)

lemma demo_collate_2:
  "demo_collator (map length demo_vocabs) [''hi'', ''see you'']
     = \<lparr> string_feat = [''hi'', ''see you''], tensor_feat = [([[0, 4], [0, 0]], [1, 2])] \<rparr>"
  by (simp add: demo_collator_def demo_word_id_def demo_vocabs_def py_split_def is_space_def Let_def)

lemma sort_low_first_tied: "sort_low_first [1 / 2, 1 / 2] = ([1 / 2, 1 / 2], [0, 1])"
  by (simp add: sort_low_first_def upt_2)

lemma demo_beam_3:
  "beam_decode [[[- ln 2, - ln 2], [- ln 2, - ln 2]], [[- ln 2, - ln 2], [- ln 2, - ln 2]],
                [[- ln 2, - ln 2], [- ln 2, - ln 2]]] [2, 1, 2] 2
     = Inr ([[[0, 0], [0, 1]], [[0], [1]], [[0, 0], [0, 1]]],
            [[- ln 2 + - ln 2, - ln 2 + - ln 2], [- ln 2, - ln 2],
             [- ln 2 + - ln 2, - ln 2 + - ln 2]])"
  by (simp add: beam_decode_def decode_example_def init_beam_def extend_beam_def top_hyps_def upt_2)

lemma demo_predict_3:
  "predict (demo_model sort_low_first beam_decode) [[3, 0], [3, 4], [0, 0]] [2, 1, 2] 2
     = Inr (([[[0, 0], [0, 1]], [[0], [1]], [[0, 0], [0, 1]]],
             [[1 / 4, 1 / 4], [1 / 2, 1 / 2], [1 / 4, 1 / 4]]),
            ([[0, 1], [0, 1], [0, 1]], [[1 / 2, 1 / 2], [1 / 2, 1 / 2], [1 / 2, 1 / 2]]))"
proof -
  let ?c = "demo_model sort_low_first beam_decode"
  have f: "forward ?c [[3, 0], [3, 4], [0, 0]] [2, 1, 2]
     = Inr ([[[0, 0], [0, 0]], [[0, 0], [0, 0]], [[0, 0], [0, 0]]], [[0, 0], [0, 0], [0, 0]])"
    by (simp add: demo_forward_shape)
  have d: "decode ?c (map (map log_softmax) [[[0, 0], [0, 0]], [[0, 0], [0, 0]], [[0, 0], [0, 0]]])
             [2, 1, 2] 2
     = Inr ([[[0, 0], [0, 1]], [[0], [1]], [[0, 0], [0, 1]]],
            [[- ln 2 + - ln 2, - ln 2 + - ln 2], [- ln 2, - ln 2],
             [- ln 2 + - ln 2, - ln 2 + - ln 2]])"
    using demo_beam_3 by (simp add: demo_model_def log_softmax_00)
  have m: "map (map exp) [[- ln 2 + - ln 2, - ln 2 + - ln 2], [- ln 2, - ln 2],
             [- ln 2 + - ln 2, - ln 2 + - ln 2]]
             = [[1 / 4, 1 / 4], [1 / 2, 1 / 2], [1 / 4, 1 / 4 :: real]]"
    by (simp only: list.map exp_ln_half exp_ln_quarter)
  have s: "sort_row ?c = sort_low_first" by (simp add: demo_model_def)
  show ?thesis
    unfolding predict_Inr[OF f d] m s
    by (simp add: softmax_00 sort_low_first_tied py_slice_to_def)
qed

lemma demo_beam_2:
  "beam_decode [[[- ln 2, - ln 2], [- ln 2, - ln 2]], [[- ln 2, - ln 2], [- ln 2, - ln 2]]] [1, 2] 2
     = Inr ([[[0], [1]], [[0, 0], [0, 1]]],
            [[- ln 2, - ln 2], [- ln 2 + - ln 2, - ln 2 + - ln 2]])"
  by (simp add: beam_decode_def decode_example_def init_beam_def extend_beam_def top_hyps_def upt_2)

lemma demo_predict_2:
  "predict (demo_model sort_low_first beam_decode) [[0, 4], [0, 0]] [1, 2] 2
     = Inr (([[[0], [1]], [[0, 0], [0, 1]]], [[1 / 2, 1 / 2], [1 / 4, 1 / 4]]),
            ([[0, 1], [0, 1]], [[1 / 2, 1 / 2], [1 / 2, 1 / 2]]))"
proof -
  let ?c = "demo_model sort_low_first beam_decode"
  have f: "forward ?c [[0, 4], [0, 0]] [1, 2]
     = Inr ([[[0, 0], [0, 0]], [[0, 0], [0, 0]]], [[0, 0], [0, 0]])"
    by (simp add: demo_forward_shape)
  have d: "decode ?c (map (map log_softmax) [[[0, 0], [0, 0]], [[0, 0], [0, 0]]]) [1, 2] 2
     = Inr ([[[0], [1]], [[0, 0], [0, 1]]],
            [[- ln 2, - ln 2], [- ln 2 + - ln 2, - ln 2 + - ln 2]])"
    using demo_beam_2 by (simp add: demo_model_def log_softmax_00)
  have m: "map (map exp) [[- ln 2, - ln 2], [- ln 2 + - ln 2, - ln 2 + - ln 2]]
             = [[1 / 2, 1 / 2], [1 / 4, 1 / 4 :: real]]"
    by (simp only: list.map exp_ln_half exp_ln_quarter)
  have s: "sort_row ?c = sort_low_first" by (simp add: demo_model_def)
  show ?thesis
    unfolding predict_Inr[OF f d] m s
    by (simp add: softmax_00 sort_low_first_tied py_slice_to_def)
qed

lemma demo_step_3:
  "batch_step demo_env (demo_model sort_low_first beam_decode) 2 demo_vocabs
     (demo_collator (map length demo_vocabs) [''hello there'', ''hello'', ''good morning''])
     = Inr [(([''O O'', ''O B''], [1 / 4, 1 / 4]), ([''greet'', ''<unk>''], [1 / 2, 1 / 2])),
            (([''O'', ''B''], [1 / 2, 1 / 2]), ([''greet'', ''<unk>''], [1 / 2, 1 / 2])),
            (([''O O'', ''O B''], [1 / 4, 1 / 4]), ([''greet'', ''<unk>''], [1 / 2, 1 / 2]))]"
proof -
  let ?b = "demo_collator (map length demo_vocabs) [''hello there'', ''hello'', ''good morning'']"
  have t: "tensor_feat ?b = ([[3, 0], [3, 4], [0, 0]], [2, 1, 2]) # []"
    unfolding demo_collate_3 by simp
  show ?thesis
    unfolding batch_step_Inr[OF t demo_predict_3]
    unfolding demo_collate_3
    by (simp add: demo_env_def demo_render_def demo_to_sent_def demo_vocabs_def
          upt_conv_Cons)
qed

lemma demo_step_2:
  "batch_step demo_env (demo_model sort_low_first beam_decode) 2 demo_vocabs
     (demo_collator (map length demo_vocabs) [''hi'', ''see you''])
     = Inr [(([''O'', ''B''], [1 / 2, 1 / 2]), ([''greet'', ''<unk>''], [1 / 2, 1 / 2])),
            (([''O O'', ''O B''], [1 / 4, 1 / 4]), ([''greet'', ''<unk>''], [1 / 2, 1 / 2]))]"
proof -
  let ?b = "demo_collator (map length demo_vocabs) [''hi'', ''see you'']"
  have t: "tensor_feat ?b = ([[0, 4], [0, 0]], [1, 2]) # []"
    unfolding demo_collate_2 by simp
  show ?thesis
    unfolding batch_step_Inr[OF t demo_predict_2]
    unfolding demo_collate_2
    by (simp add: demo_env_def demo_render_def demo_to_sent_def demo_vocabs_def upt_conv_Cons)
qed

lemma prepare_model_cases:
  "prepare_model ld a vocabs =
     (if length vocabs < 3 then Inl IndexError
      else if \<not> ld (ckpt_path a)
                 (RNNBasedJLU_init (args_hidden_dim a) (args_word_dim a)
                    (length (vocabs ! 0)) (length (vocabs ! 1)) (length (vocabs ! 2)))
           then Inl ModelLoadError
      else if expand_vocab a then Inl UnboundLocalError
      else Inr (RNNBasedJLU_init (args_hidden_dim a) (args_word_dim a)
                  (length (vocabs ! 0)) (length (vocabs ! 1)) (length (vocabs ! 2)),
                vocabs ! 0))"
  by (auto simp: prepare_model_def py_index_def Let_def)

lemma demo_prepare:
  "prepare_model (load_checkpoint demo_env) demo_args demo_vocabs
     = Inr (RNNBasedJLU_init 300 300 4 2 1, [''<unk>'', ''<bos>'', ''<eos>'', ''hello''])"
  by (simp add: prepare_model_cases demo_env_def demo_args_def demo_vocabs_def eval_nat_numeral)

lemma demo_env_fields:
  "modules_of demo_env mdl = demo_model sort_low_first beam_decode"
  "collator demo_env = demo_collator"
  "can_open demo_env = (\<lambda>path. True)"
  "str_float demo_env = demo_str"
  "top_k demo_args = 2"
  "demo_vocabs[0 := [''<unk>'', ''<bos>'', ''<eos>'', ''hello'']] = demo_vocabs"
  by (simp_all add: demo_env_def demo_args_def demo_vocabs_def)

lemma demo_steps:
  "\<forall>b\<in>set (batch_sampler (nat (batch_size demo_args)) [] demo_dataset).
      batch_step demo_env (modules_of demo_env mdl) (top_k demo_args)
        (demo_vocabs[0 := [''<unk>'', ''<bos>'', ''<eos>'', ''hello'']])
        (collator demo_env (map length demo_vocabs) b)
      = Inr (map (\<lambda>x. if x = ''hello'' \<or> x = ''hi''
                        then (([''O'', ''B''], [1 / 2, 1 / 2]), ([''greet'', ''<unk>''], [1 / 2, 1 / 2]))
                        else (([''O O'', ''O B''], [1 / 4, 1 / 4]), ([''greet'', ''<unk>''], [1 / 2, 1 / 2]))) b)"
  unfolding demo_batches demo_env_fields
  by (simp add: demo_step_3 demo_step_2)

lemma demo_output:
  "\<exists>fs'. generate_output (\<lambda>path. True) demo_str demo_args
            (([[''O O'', ''O B''], [''O'', ''B''], [''O O'', ''O B''], [''O'', ''B''], [''O O'', ''O B'']],
              [[1 / 4, 1 / 4], [1 / 2, 1 / 2], [1 / 4, 1 / 4], [1 / 2, 1 / 2], [1 / 4, 1 / 4]]),
             ([[''greet'', ''<unk>''], [''greet'', ''<unk>''], [''greet'', ''<unk>''], [''greet'', ''<unk>''],
              [''greet'', ''<unk>'']],
              [[1 / 2, 1 / 2], [1 / 2, 1 / 2], [1 / 2, 1 / 2], [1 / 2, 1 / 2], [1 / 2, 1 / 2]])) Map.empty
          = (None, fs')
       \<and> map (\<lambda>q. map_option file_lines (fs' q))
            [''out/label.txt'', ''out/intent.txt'', ''out/label-probs.txt'', ''out/intent-probs.txt'']
           = [Some [''O O'', ''O'', ''O O'', ''O'', ''O O''],
               Some [''greet'', ''greet'', ''greet'', ''greet'', ''greet''],
              Some [''0.25'', ''0.5'', ''0.25'', ''0.5'', ''0.25''],
               Some [''0.5'', ''0.5'', ''0.5'', ''0.5'', ''0.5'']]"
proof -
  let ?labels = "[[''O O'', ''O B''], [''O'', ''B''], [''O O'', ''O B''], [''O'', ''B''], [''O O'', ''O B'']]"
  let ?pl = "[[1 / 4, 1 / 4], [1 / 2, 1 / 2], [1 / 4, 1 / 4], [1 / 2, 1 / 2], [1 / 4, 1 / 4 :: real]]"
  let ?intents = "[[''greet'', ''<unk>''], [''greet'', ''<unk>''], [''greet'', ''<unk>''], [''greet'', ''<unk>''],
              [''greet'', ''<unk>'']]"
  let ?p_i = "[[1 / 2, 1 / 2], [1 / 2, 1 / 2], [1 / 2, 1 / 2], [1 / 2, 1 / 2], [1 / 2, 1 / 2 :: real]]"
  have n: "\<forall>l\<in>set ?labels. l \<noteq> []" "\<forall>l\<in>set ?intents. l \<noteq> []"
          "\<forall>l\<in>set ?pl. l \<noteq> []" "\<forall>l\<in>set ?p_i. l \<noteq> []" by simp_all
  have h1: "\<forall>p\<in>set (save_paths demo_args). (\<lambda>path. True) p" by simp
  have h2: "distinct (save_paths demo_args)" by (simp add: demo_save_paths)
  have h3: "length ?intents = length ?labels" "length ?pl = length ?labels"
           "length ?p_i = length ?labels" by simp_all
  have h4: "\<forall>l\<in>set ?intents. CHR 0x0A \<notin> set (hd l)" by simp
  from generate_output_first[OF n h1 h2 h3 h4 demo_str_no_newline, of Map.empty]
  obtain fs' where
    a: "generate_output (\<lambda>path. True) demo_str demo_args ((?labels, ?pl), (?intents, ?p_i)) Map.empty
          = (None, fs')"
    and c: "map (\<lambda>q. map_option file_lines (fs' q)) (save_paths demo_args)
         = [Some (map (\<lambda>l. py_join '' '' (py_split (hd l))) ?labels),
            Some (map hd ?intents), Some (map (\<lambda>l. demo_str (hd l)) ?pl),
            Some (map (\<lambda>l. demo_str (hd l)) ?p_i)]"
    by (elim exE conjE) (rule that)
  from c have c': "map (\<lambda>q. map_option file_lines (fs' q))
            [''out/label.txt'', ''out/intent.txt'', ''out/label-probs.txt'', ''out/intent-probs.txt'']
           = [Some [''O O'', ''O'', ''O O'', ''O'', ''O O''],
               Some [''greet'', ''greet'', ''greet'', ''greet'', ''greet''],
              Some [''0.25'', ''0.5'', ''0.25'', ''0.5'', ''0.25''],
               Some [''0.5'', ''0.5'', ''0.5'', ''0.5'', ''0.5'']]"
    unfolding demo_save_paths by (simp add: py_split_def is_space_def demo_str_def)
  show ?thesis
    by (rule exI[of _ fs']) (intro conjI a c')
qed

subsection \<open>The prediction run of \<^verbatim>\<open>generate\<close>\<close>

text \<open>
  Claim C8. A run of \<^verbatim>\<open>generate\<close> with a batch size of at least 1, a model that loads
  and a predictor that gets one result per example out of every batch. The loader is
  built without shuffling: its batches are consecutive, non-empty pieces of the dataset,
  whose concatenation is the dataset. \<^verbatim>\<open>generate\<close> hands them to the predictor, which
  takes them in that order and calls \<^verbatim>\<open>predict\<close> with \<^verbatim>\<open>--top-k\<close> on the first tensor
  entry of each. The predictions that \<^verbatim>\<open>generate\<close> goes on with (and that decide its
  result and the files) are the results of the batches one after the other: one entry
  per example, in the order of the dataset; and where the result of an example does not
  depend on its batch, they are the same for every batch size.
\<close>

theorem generate_in_dataset_order:
  assumes bs: "1 \<le> batch_size a"
    and pm: "prepare_model (load_checkpoint env) a vocabs = Inr (mdl, vocab0)"
    and step: "\<forall>b\<in>set (batch_sampler (nat (batch_size a)) [] dataset).
                 batch_step env (modules_of env (mdl\<lparr> model_beam_size := Some (beam_size a) \<rparr>))
                    (top_k a) (vocabs[0 := vocab0]) (collator env (map length vocabs) b) = Inr (g b)
                 \<and> length (g b) = length b"
  shows "\<exists>r w'.
        generate env a vocabs dataset w = (r, w')
      \<and> concat (batch_sampler (nat (batch_size a)) [] dataset) = dataset
      \<and> (\<forall>b\<in>set (batch_sampler (nat (batch_size a)) [] dataset).
            b \<noteq> [] \<and> length b \<le> nat (batch_size a))
      \<and> scored w' = scored w @ map (collator env (map length vocabs))
                                   (batch_sampler (nat (batch_size a)) [] dataset)
      \<and> (\<forall>b\<in>set (batch_sampler (nat (batch_size a)) [] dataset).
            \<exists>wt lens rest out.
                tensor_feat (collator env (map length vocabs) b) = (wt, lens) # rest
              \<and> predict (modules_of env (mdl\<lparr> model_beam_size := Some (beam_size a) \<rparr>))
                   wt lens (top_k a) = Inr out
              \<and> g b = render env (vocabs[0 := vocab0]) (collator env (map length vocabs) b) out)
      \<and> length (concat (map g (batch_sampler (nat (batch_size a)) [] dataset))) = length dataset
      \<and> ((\<forall>b\<in>set (batch_sampler (nat (batch_size a)) [] dataset). g b = map f b)
            \<longrightarrow> concat (map g (batch_sampler (nat (batch_size a)) [] dataset)) = map f dataset)
      \<and> (r, files w')
          = generate_output (can_open env) (str_float env) a
              ((map (\<lambda>r. fst (fst r)) (concat (map g (batch_sampler (nat (batch_size a)) [] dataset))),
                map (\<lambda>r. snd (fst r)) (concat (map g (batch_sampler (nat (batch_size a)) [] dataset)))),
               (map (\<lambda>r. fst (snd r)) (concat (map g (batch_sampler (nat (batch_size a)) [] dataset))),
                map (\<lambda>r. snd (snd r)) (concat (map g (batch_sampler (nat (batch_size a)) [] dataset)))))
              (files w)"
proof -
  let ?B = "batch_sampler (nat (batch_size a)) [] dataset"
  let ?col = "collator env (map length vocabs)"
  let ?c = "modules_of env (mdl\<lparr> model_beam_size := Some (beam_size a) \<rparr>)"
  let ?step = "batch_step env ?c (top_k a) (vocabs[0 := vocab0])"
  let ?rs = "concat (map g ?B)"
  let ?out = "((map (\<lambda>r. fst (fst r)) ?rs, map (\<lambda>r. snd (fst r)) ?rs),
               (map (\<lambda>r. fst (snd r)) ?rs, map (\<lambda>r. snd (snd r)) ?rs))"
  have cc: "concat ?B = dataset" by (simp add: concat_batch_sampler)
  have sz: "\<forall>b\<in>set ?B. b \<noteq> [] \<and> length b \<le> nat (batch_size a)"
    using bs by (intro batch_sampler_sizes) simp_all
  have "list_all2 (\<lambda>cb rs. ?step cb = Inr rs) (map ?col ?B) (map g ?B)"
    using step by (simp add: list_all2_map1 list_all2_map2 list_all2_same)
  from inference_ok[OF this, of "length dataset" w] obtain w1 where
    inf: "inference ?step (length dataset) (map ?col ?B) w = (Inr ?rs, w1)"
    and sc: "scored w1 = scored w @ map ?col ?B" and fl: "files w1 = files w"
    by (elim exE conjE) (rule that)
  obtain r fsys where go: "generate_output (can_open env) (str_float env) a ?out (files w1) = (r, fsys)"
    by (cases "generate_output (can_open env) (str_float env) a ?out (files w1)") (rule that)
  have g: "generate env a vocabs dataset w = (r, w1\<lparr> files := fsys \<rparr>)"
    by (rule generate_success[OF bs pm inf go])
  have sc': "scored (w1\<lparr> files := fsys \<rparr>) = scored w @ map ?col ?B" using sc by simp
  have md: "\<forall>b\<in>set ?B. \<exists>wt lens rest out.
                tensor_feat (?col b) = (wt, lens) # rest
              \<and> predict ?c wt lens (top_k a) = Inr out
              \<and> g b = render env (vocabs[0 := vocab0]) (?col b) out"
  proof
    fix b assume "b \<in> set ?B"
    with step have "?step (?col b) = Inr (g b)" by blast
    from batch_step_InrD[OF this]
    show "\<exists>wt lens rest out.
                tensor_feat (?col b) = (wt, lens) # rest
              \<and> predict ?c wt lens (top_k a) = Inr out
              \<and> g b = render env (vocabs[0 := vocab0]) (?col b) out" .
  qed
  have len: "length ?rs = length dataset"
    using length_concat_map[of ?B g] step cc by simp
  have ex: "(\<forall>b\<in>set ?B. g b = map f b) \<longrightarrow> ?rs = map f dataset"
  proof
    assume "\<forall>b\<in>set ?B. g b = map f b"
    then have "map g ?B = map (map f) ?B" by (intro map_cong) simp_all
    then have "?rs = concat (map (map f) ?B)" by (simp only:)
    also have "\<dots> = map f (concat ?B)" by (simp add: map_concat)
    finally show "?rs = map f dataset" using cc by simp
  qed
  have fin: "(r, files (w1\<lparr> files := fsys \<rparr>))
               = generate_output (can_open env) (str_float env) a ?out (files w)"
    using go fl by simp
  show ?thesis
    apply (rule exI[of _ r], rule exI[of _ "w1\<lparr> files := fsys \<rparr>"])
    apply (intro conjI)
    apply (rule g)
    apply (rule cc)
    apply (rule sz)
    apply (rule sc')
    apply (rule md)
    apply (rule len)
    apply (rule ex)
    apply (rule fin)
    done
qed

theorem generate_in_dataset_order_witness:
  "1 \<le> batch_size demo_args
   \<and> batch_sampler (nat (batch_size demo_args)) [] demo_dataset
        = [[''hello there'', ''hello'', ''good morning''], [''hi'', ''see you'']]
   \<and> (\<exists>w'. generate demo_env demo_args demo_vocabs demo_dataset demo_world = (None, w')
        \<and> map string_feat (scored w') = [[''hello there'', ''hello'', ''good morning''], [''hi'', ''see you'']]
        \<and> map (\<lambda>q. map_option file_lines (files w' q))
             [''out/label.txt'', ''out/intent.txt'', ''out/label-probs.txt'', ''out/intent-probs.txt'']
            = [Some [''O O'', ''O'', ''O O'', ''O'', ''O O''],
               Some [''greet'', ''greet'', ''greet'', ''greet'', ''greet''],
               Some [''0.25'', ''0.5'', ''0.25'', ''0.5'', ''0.25''],
               Some [''0.5'', ''0.5'', ''0.5'', ''0.5'', ''0.5'']])"
proof -
  let ?f = "\<lambda>x. if x = ''hello'' \<or> x = ''hi''
                 then (([''O'', ''B''], [1 / 2, 1 / 2 :: real]), ([''greet'', ''<unk>''], [1 / 2, 1 / 2 :: real]))
                 else (([''O O'', ''O B''], [1 / 4, 1 / 4]), ([''greet'', ''<unk>''], [1 / 2, 1 / 2]))"
  let ?B = "batch_sampler (nat (batch_size demo_args)) [] demo_dataset"
  have h1: "1 \<le> batch_size demo_args" by (simp add: demo_args_def)
  have h3: "\<forall>b\<in>set ?B.
      batch_step demo_env
        (modules_of demo_env
           ((RNNBasedJLU_init 300 300 4 2 1)\<lparr> model_beam_size := Some (beam_size demo_args) \<rparr>))
        (top_k demo_args) (demo_vocabs[0 := [''<unk>'', ''<bos>'', ''<eos>'', ''hello'']])
        (collator demo_env (map length demo_vocabs) b) = Inr (map ?f b)
      \<and> length (map ?f b) = length b"
    using demo_steps by simp
  from generate_in_dataset_order[OF h1 demo_prepare h3, where w = demo_world and f = ?f]
  obtain r w' where
    g: "generate demo_env demo_args demo_vocabs demo_dataset demo_world = (r, w')"
    and s: "scored w' = scored demo_world @ map (collator demo_env (map length demo_vocabs)) ?B"
    and o: "(r, files w')
          = generate_output (can_open demo_env) (str_float demo_env) demo_args
              ((map (\<lambda>r. fst (fst r)) (concat (map (map ?f) ?B)),
                map (\<lambda>r. snd (fst r)) (concat (map (map ?f) ?B))),
               (map (\<lambda>r. fst (snd r)) (concat (map (map ?f) ?B)),
                map (\<lambda>r. snd (snd r)) (concat (map (map ?f) ?B))))
              (files (demo_world :: string batch world))"
    by (elim exE conjE) (rule that)
  from demo_output obtain fs' where
    a: "generate_output (\<lambda>path. True) demo_str demo_args
            (([[''O O'', ''O B''], [''O'', ''B''], [''O O'', ''O B''], [''O'', ''B''], [''O O'', ''O B'']],
              [[1 / 4, 1 / 4], [1 / 2, 1 / 2], [1 / 4, 1 / 4], [1 / 2, 1 / 2], [1 / 4, 1 / 4]]),
             ([[''greet'', ''<unk>''], [''greet'', ''<unk>''], [''greet'', ''<unk>''], [''greet'', ''<unk>''],
              [''greet'', ''<unk>'']],
              [[1 / 2, 1 / 2], [1 / 2, 1 / 2], [1 / 2, 1 / 2], [1 / 2, 1 / 2], [1 / 2, 1 / 2]])) Map.empty
          = (None, fs')"
    and c: "map (\<lambda>q. map_option file_lines (fs' q))
            [''out/label.txt'', ''out/intent.txt'', ''out/label-probs.txt'', ''out/intent-probs.txt'']
           = [Some [''O O'', ''O'', ''O O'', ''O'', ''O O''],
               Some [''greet'', ''greet'', ''greet'', ''greet'', ''greet''],
              Some [''0.25'', ''0.5'', ''0.25'', ''0.5'', ''0.25''],
               Some [''0.5'', ''0.5'', ''0.5'', ''0.5'', ''0.5'']]"
    by (elim exE conjE) (rule that)
  have "(r, files w') = (None, fs')"
    using o a unfolding demo_batches demo_env_fields by (simp add: demo_world_def)
  then have r: "r = None" and f: "files w' = fs'" by simp_all
  have s': "map string_feat (scored w') = [[''hello there'', ''hello'', ''good morning''], [''hi'', ''see you'']]"
    using s unfolding demo_batches demo_env_fields
    by (simp add: demo_world_def demo_collator_def Let_def)
  have "\<exists>w'. generate demo_env demo_args demo_vocabs demo_dataset demo_world = (None, w')
        \<and> map string_feat (scored w') = [[''hello there'', ''hello'', ''good morning''], [''hi'', ''see you'']]
        \<and> map (\<lambda>q. map_option file_lines (files w' q))
             [''out/label.txt'', ''out/intent.txt'', ''out/label-probs.txt'', ''out/intent-probs.txt'']
            = [Some [''O O'', ''O'', ''O O'', ''O'', ''O O''],
               Some [''greet'', ''greet'', ''greet'', ''greet'', ''greet''],
               Some [''0.25'', ''0.5'', ''0.25'', ''0.5'', ''0.25''],
               Some [''0.5'', ''0.5'', ''0.5'', ''0.5'', ''0.5'']]"
    apply (rule exI[of _ w'])
    apply (intro conjI)
    using g r apply simp
    apply (rule s')
    using c f apply simp
    done
  with h1 demo_batches show ?thesis by (intro conjI)
qed

text \<open>
  Claim C9. A run of \<^verbatim>\<open>generate\<close> whose predictor returns the predictions \<open>preds\<close>,
  every candidate list non-empty (the four paths distinct and open for writing, no
  first intent and no printed probability holding a newline): it ends without an error,
  it changes the four files and no other, and each file holds one line per example, made
  of the first label sequence, the first intent or the probability of one of them. The
  candidates after the first are dropped: predictions that agree with \<open>preds\<close> in the
  first candidates give the same files.
\<close>

theorem generate_keeps_first_candidate:
  assumes bs: "1 \<le> batch_size a"
    and pm: "prepare_model (load_checkpoint env) a vocabs = Inr (mdl, vocab0)"
    and run: "inference
                (batch_step env (modules_of env (mdl\<lparr> model_beam_size := Some (beam_size a) \<rparr>))
                   (top_k a) (vocabs[0 := vocab0]))
                (length dataset)
                (map (collator env (map length vocabs))
                   (batch_sampler (nat (batch_size a)) [] dataset)) w
              = (Inr preds, w')"
    and ne: "\<forall>r\<in>set preds. fst (fst r) \<noteq> [] \<and> snd (fst r) \<noteq> []
                                \<and> fst (snd r) \<noteq> [] \<and> snd (snd r) \<noteq> []"
    and opn: "\<forall>p\<in>set (save_paths a). can_open env p"
    and dist: "distinct (save_paths a)"
    and nl1: "\<forall>r\<in>set preds. CHR 0x0A \<notin> set (hd (fst (snd r)))"
    and nl2: "\<forall>p. CHR 0x0A \<notin> set (str_float env p)"
  shows "\<exists>fs'.
       generate env a vocabs dataset w = (None, w'\<lparr> files := fs' \<rparr>)
     \<and> (\<forall>q. q \<notin> set (save_paths a) \<longrightarrow> fs' q = files w' q)
     \<and> map (\<lambda>q. map_option file_lines (fs' q)) (save_paths a)
         = [Some (map (\<lambda>r. py_join '' '' (py_split (hd (fst (fst r))))) preds),
            Some (map (\<lambda>r. hd (fst (snd r))) preds),
            Some (map (\<lambda>r. str_float env (hd (snd (fst r)))) preds),
            Some (map (\<lambda>r. str_float env (hd (snd (snd r)))) preds)]
     \<and> (\<forall>q\<in>set (save_paths a). \<exists>c. fs' q = Some c \<and> length (file_lines c) = length preds)
     \<and> (\<forall>others.
           (\<forall>r\<in>set others. fst (fst r) \<noteq> [] \<and> snd (fst r) \<noteq> []
                                \<and> fst (snd r) \<noteq> [] \<and> snd (snd r) \<noteq> [])
           \<and> map (\<lambda>r. ((hd (fst (fst r)), hd (snd (fst r))), (hd (fst (snd r)), hd (snd (snd r)))))
                 others
             = map (\<lambda>r. ((hd (fst (fst r)), hd (snd (fst r))), (hd (fst (snd r)), hd (snd (snd r)))))
                 preds
           \<longrightarrow> generate_output (can_open env) (str_float env) a
                  ((map (\<lambda>r. fst (fst r)) others, map (\<lambda>r. snd (fst r)) others),
                   (map (\<lambda>r. fst (snd r)) others, map (\<lambda>r. snd (snd r)) others)) (files w')
                = (None, fs'))"
proof -
  let ?labels = "map (\<lambda>r. fst (fst r)) preds" and ?pl = "map (\<lambda>r. snd (fst r)) preds"
  let ?intents = "map (\<lambda>r. fst (snd r)) preds" and ?p_i = "map (\<lambda>r. snd (snd r)) preds"
  let ?opn = "can_open env" and ?str = "str_float env"
  have n: "\<forall>l\<in>set ?labels. l \<noteq> []" "\<forall>l\<in>set ?intents. l \<noteq> []"
          "\<forall>l\<in>set ?pl. l \<noteq> []" "\<forall>l\<in>set ?p_i. l \<noteq> []"
    using ne by simp_all
  have par: "length ?intents = length ?labels" "length ?pl = length ?labels"
            "length ?p_i = length ?labels" by simp_all
  have nl1': "\<forall>l\<in>set ?intents. CHR 0x0A \<notin> set (hd l)" using nl1 by simp
  from generate_output_first[OF n opn dist par nl1' nl2, of "files w'"]
  obtain fs' where
    all: "generate_output ?opn ?str a ((?labels, ?pl), (?intents, ?p_i)) (files w') = (None, fs')
     \<and> (\<forall>q. q \<notin> set (save_paths a) \<longrightarrow> fs' q = files w' q)
     \<and> map (\<lambda>q. map_option file_lines (fs' q)) (save_paths a)
         = [Some (map (\<lambda>l. py_join '' '' (py_split (hd l))) ?labels),
            Some (map hd ?intents), Some (map (\<lambda>l. ?str (hd l)) ?pl),
            Some (map (\<lambda>l. ?str (hd l)) ?p_i)]
     \<and> (\<forall>q\<in>set (save_paths a). \<exists>c. fs' q = Some c \<and> length (file_lines c) = length ?labels)
     \<and> generate_output ?opn ?str a
          ((map (\<lambda>l. [hd l]) ?labels, map (\<lambda>l. [hd l]) ?pl),
           (map (\<lambda>l. [hd l]) ?intents, map (\<lambda>l. [hd l]) ?p_i)) (files w') = (None, fs')"
    by (rule exE)
  from all have go: "generate_output ?opn ?str a ((?labels, ?pl), (?intents, ?p_i)) (files w')
                      = (None, fs')"
    by (rule conjunct1)
  from all have out: "\<forall>q. q \<notin> set (save_paths a) \<longrightarrow> fs' q = files w' q"
    by (elim conjE)
  from all have rd: "map (\<lambda>q. map_option file_lines (fs' q)) (save_paths a)
         = [Some (map (\<lambda>l. py_join '' '' (py_split (hd l))) ?labels),
            Some (map hd ?intents), Some (map (\<lambda>l. ?str (hd l)) ?pl),
            Some (map (\<lambda>l. ?str (hd l)) ?p_i)]"
    by (elim conjE)
  from all have cnt: "\<forall>q\<in>set (save_paths a). \<exists>c. fs' q = Some c
                         \<and> length (file_lines c) = length ?labels"
    by (elim conjE)
  have g: "generate env a vocabs dataset w = (None, w'\<lparr> files := fs' \<rparr>)"
    by (rule generate_success[OF bs pm run go])
  have rd': "map (\<lambda>q. map_option file_lines (fs' q)) (save_paths a)
         = [Some (map (\<lambda>r. py_join '' '' (py_split (hd (fst (fst r))))) preds),
            Some (map (\<lambda>r. hd (fst (snd r))) preds),
            Some (map (\<lambda>r. str_float env (hd (snd (fst r)))) preds),
            Some (map (\<lambda>r. str_float env (hd (snd (snd r)))) preds)]"
    using rd by (simp add: comp_def)
  have cnt': "\<forall>q\<in>set (save_paths a). \<exists>c. fs' q = Some c \<and> length (file_lines c) = length preds"
    using cnt by simp
  have oth: "\<forall>others.
           (\<forall>r\<in>set others. fst (fst r) \<noteq> [] \<and> snd (fst r) \<noteq> []
                                \<and> fst (snd r) \<noteq> [] \<and> snd (snd r) \<noteq> [])
           \<and> map (\<lambda>r. ((hd (fst (fst r)), hd (snd (fst r))), (hd (fst (snd r)), hd (snd (snd r)))))
                 others
             = map (\<lambda>r. ((hd (fst (fst r)), hd (snd (fst r))), (hd (fst (snd r)), hd (snd (snd r)))))
                 preds
           \<longrightarrow> generate_output ?opn ?str a
                  ((map (\<lambda>r. fst (fst r)) others, map (\<lambda>r. snd (fst r)) others),
                   (map (\<lambda>r. fst (snd r)) others, map (\<lambda>r. snd (snd r)) others)) (files w')
                = (None, fs')"
  proof (intro allI impI, elim conjE)
    fix others :: "prediction list"
    let ?F = "\<lambda>r :: prediction. ((hd (fst (fst r)), hd (snd (fst r))), (hd (fst (snd r)), hd (snd (snd r))))"
    assume no: "\<forall>r\<in>set others. fst (fst r) \<noteq> [] \<and> snd (fst r) \<noteq> []
                                \<and> fst (snd r) \<noteq> [] \<and> snd (snd r) \<noteq> []"
      and eq: "map ?F others = map ?F preds"
    have h: "map (\<lambda>r. hd (fst (fst r))) others = map (\<lambda>r. hd (fst (fst r))) preds"
            "map (\<lambda>r. hd (snd (fst r))) others = map (\<lambda>r. hd (snd (fst r))) preds"
            "map (\<lambda>r. hd (fst (snd r))) others = map (\<lambda>r. hd (fst (snd r))) preds"
            "map (\<lambda>r. hd (snd (snd r))) others = map (\<lambda>r. hd (snd (snd r))) preds"
    proof -
      have "map (\<lambda>p. fst (fst p)) (map ?F others) = map (\<lambda>p. fst (fst p)) (map ?F preds)"
        using eq by (rule arg_cong)
      then show "map (\<lambda>r. hd (fst (fst r))) others = map (\<lambda>r. hd (fst (fst r))) preds"
        by (simp add: comp_def)
      have "map (\<lambda>p. snd (fst p)) (map ?F others) = map (\<lambda>p. snd (fst p)) (map ?F preds)"
        using eq by (rule arg_cong)
      then show "map (\<lambda>r. hd (snd (fst r))) others = map (\<lambda>r. hd (snd (fst r))) preds"
        by (simp add: comp_def)
      have "map (\<lambda>p. fst (snd p)) (map ?F others) = map (\<lambda>p. fst (snd p)) (map ?F preds)"
        using eq by (rule arg_cong)
      then show "map (\<lambda>r. hd (fst (snd r))) others = map (\<lambda>r. hd (fst (snd r))) preds"
        by (simp add: comp_def)
      have "map (\<lambda>p. snd (snd p)) (map ?F others) = map (\<lambda>p. snd (snd p)) (map ?F preds)"
        using eq by (rule arg_cong)
      then show "map (\<lambda>r. hd (snd (snd r))) others = map (\<lambda>r. hd (snd (snd r))) preds"
        by (simp add: comp_def)
    qed
    have no': "\<forall>l\<in>set (map (\<lambda>r. fst (fst r)) others). l \<noteq> []"
         "\<forall>l\<in>set (map (\<lambda>r. fst (snd r)) others). l \<noteq> []"
         "\<forall>l\<in>set (map (\<lambda>r. snd (fst r)) others). l \<noteq> []"
         "\<forall>l\<in>set (map (\<lambda>r. snd (snd r)) others). l \<noteq> []"
      using no by simp_all
    have "generate_output ?opn ?str a
                  ((map (\<lambda>r. fst (fst r)) others, map (\<lambda>r. snd (fst r)) others),
                   (map (\<lambda>r. fst (snd r)) others, map (\<lambda>r. snd (snd r)) others)) (files w')
            = save ?opn ?str a (map (\<lambda>r. hd (fst (fst r))) others) (map (\<lambda>r. hd (fst (snd r))) others)
                (map (\<lambda>r. hd (snd (fst r))) others) (map (\<lambda>r. hd (snd (snd r))) others) (files w')"
      unfolding generate_output_heads[OF no'] by (simp add: comp_def)
    also have "\<dots> = generate_output ?opn ?str a ((?labels, ?pl), (?intents, ?p_i)) (files w')"
      unfolding generate_output_heads[OF n] h by (simp add: comp_def)
    finally show "generate_output ?opn ?str a
                  ((map (\<lambda>r. fst (fst r)) others, map (\<lambda>r. snd (fst r)) others),
                   (map (\<lambda>r. fst (snd r)) others, map (\<lambda>r. snd (snd r)) others)) (files w')
                = (None, fs')"
      using go by simp
  qed
  show ?thesis
    by (rule exI[of _ fs']) (intro conjI g out rd' cnt' oth)
qed

theorem generate_keeps_first_candidate_witness:
  "1 \<le> batch_size demo_args \<and> distinct (save_paths demo_args)
   \<and> predict (demo_model sort_low_first beam_decode) [[0, 4], [0, 0]] [1, 2] 2
       = Inr (([[[0], [1]], [[0, 0], [0, 1]]], [[1 / 2, 1 / 2], [1 / 4, 1 / 4]]),
              ([[0, 1], [0, 1]], [[1 / 2, 1 / 2], [1 / 2, 1 / 2]]))
   \<and> (\<exists>w'. generate demo_env demo_args demo_vocabs demo_dataset demo_world = (None, w')
        \<and> files w' ''out/other.txt'' = None
        \<and> map (\<lambda>q. map_option file_lines (files w' q))
             [''out/label.txt'', ''out/intent.txt'', ''out/label-probs.txt'', ''out/intent-probs.txt'']
            = [Some [''O O'', ''O'', ''O O'', ''O'', ''O O''],
               Some [''greet'', ''greet'', ''greet'', ''greet'', ''greet''],
               Some [''0.25'', ''0.5'', ''0.25'', ''0.5'', ''0.25''],
               Some [''0.5'', ''0.5'', ''0.5'', ''0.5'', ''0.5'']])"
proof -
  let ?f = "\<lambda>x. if x = ''hello'' \<or> x = ''hi''
                 then (([''O'', ''B''], [1 / 2, 1 / 2 :: real]), ([''greet'', ''<unk>''], [1 / 2, 1 / 2 :: real]))
                 else (([''O O'', ''O B''], [1 / 4, 1 / 4]), ([''greet'', ''<unk>''], [1 / 2, 1 / 2]))"
  let ?B = "batch_sampler (nat (batch_size demo_args)) [] demo_dataset"
  let ?col = "collator demo_env (map length demo_vocabs)"
  let ?step = "batch_step demo_env
        (modules_of demo_env
           ((RNNBasedJLU_init 300 300 4 2 1)\<lparr> model_beam_size := Some (beam_size demo_args) \<rparr>))
        (top_k demo_args) (demo_vocabs[0 := [''<unk>'', ''<bos>'', ''<eos>'', ''hello'']])"
  let ?preds = "concat (map (map ?f) ?B)"
  have h1: "1 \<le> batch_size demo_args" by (simp add: demo_args_def)
  have h2: "distinct (save_paths demo_args)" by (simp add: demo_save_paths)
  have "list_all2 (\<lambda>cb rs. ?step cb = Inr rs) (map ?col ?B) (map (map ?f) ?B)"
    using demo_steps by (simp add: list_all2_map1 list_all2_map2 list_all2_same)
  from inference_ok[OF this, of "length demo_dataset" demo_world] obtain w1 where
    run: "inference ?step (length demo_dataset) (map ?col ?B) demo_world = (Inr ?preds, w1)"
    and fl: "files w1 = files (demo_world :: string batch world)"
    by (elim exE conjE) (rule that)
  have pv: "?preds = [(([''O O'', ''O B''], [1 / 4, 1 / 4]), ([''greet'', ''<unk>''], [1 / 2, 1 / 2])),
                      (([''O'', ''B''], [1 / 2, 1 / 2]), ([''greet'', ''<unk>''], [1 / 2, 1 / 2])),
                      (([''O O'', ''O B''], [1 / 4, 1 / 4]), ([''greet'', ''<unk>''], [1 / 2, 1 / 2])),
                      (([''O'', ''B''], [1 / 2, 1 / 2]), ([''greet'', ''<unk>''], [1 / 2, 1 / 2])),
                      (([''O O'', ''O B''], [1 / 4, 1 / 4]), ([''greet'', ''<unk>''], [1 / 2, 1 / 2]))]"
    unfolding demo_batches by simp
  have ne: "\<forall>r\<in>set ?preds. fst (fst r) \<noteq> [] \<and> snd (fst r) \<noteq> []
                                \<and> fst (snd r) \<noteq> [] \<and> snd (snd r) \<noteq> []"
    unfolding pv by simp
  have opn: "\<forall>p\<in>set (save_paths demo_args). can_open demo_env p"
    by (simp add: demo_env_fields)
  have nl1: "\<forall>r\<in>set ?preds. CHR 0x0A \<notin> set (hd (fst (snd r)))"
    unfolding pv by simp
  have nl2: "\<forall>p. CHR 0x0A \<notin> set (str_float demo_env p)"
    using demo_str_no_newline by (simp add: demo_env_fields)
  from generate_keeps_first_candidate[OF h1 demo_prepare run ne opn h2 nl1 nl2]
  obtain fs' where
    g: "generate demo_env demo_args demo_vocabs demo_dataset demo_world = (None, w1\<lparr> files := fs' \<rparr>)"
    and out: "\<forall>q. q \<notin> set (save_paths demo_args) \<longrightarrow> fs' q = files w1 q"
    and rd: "map (\<lambda>q. map_option file_lines (fs' q)) (save_paths demo_args)
         = [Some (map (\<lambda>r. py_join '' '' (py_split (hd (fst (fst r))))) ?preds),
            Some (map (\<lambda>r. hd (fst (snd r))) ?preds),
            Some (map (\<lambda>r. str_float demo_env (hd (snd (fst r)))) ?preds),
            Some (map (\<lambda>r. str_float demo_env (hd (snd (snd r)))) ?preds)]"
    by (elim exE conjE) (rule that)
  have o': "fs' ''out/other.txt'' = None"
    using out fl by (simp add: demo_save_paths demo_world_def)
  have rd': "map (\<lambda>q. map_option file_lines (fs' q))
             [''out/label.txt'', ''out/intent.txt'', ''out/label-probs.txt'', ''out/intent-probs.txt'']
            = [Some [''O O'', ''O'', ''O O'', ''O'', ''O O''],
               Some [''greet'', ''greet'', ''greet'', ''greet'', ''greet''],
               Some [''0.25'', ''0.5'', ''0.25'', ''0.5'', ''0.25''],
               Some [''0.5'', ''0.5'', ''0.5'', ''0.5'', ''0.5'']]"
    using rd unfolding pv demo_save_paths
    by (simp add: py_split_def is_space_def demo_str_def demo_env_fields)
  have "\<exists>w'. generate demo_env demo_args demo_vocabs demo_dataset demo_world = (None, w')
        \<and> files w' ''out/other.txt'' = None
        \<and> map (\<lambda>q. map_option file_lines (files w' q))
             [''out/label.txt'', ''out/intent.txt'', ''out/label-probs.txt'', ''out/intent-probs.txt'']
            = [Some [''O O'', ''O'', ''O O'', ''O'', ''O O''],
               Some [''greet'', ''greet'', ''greet'', ''greet'', ''greet''],
               Some [''0.25'', ''0.5'', ''0.25'', ''0.5'', ''0.25''],
               Some [''0.5'', ''0.5'', ''0.5'', ''0.5'', ''0.5'']]"
    apply (rule exI[of _ "w1\<lparr> files := fs' \<rparr>"])
    apply (intro conjI)
    apply (rule g)
    using o' apply simp
    using rd' apply simp
    done
  with h1 h2 demo_predict_2 show ?thesis by (intro conjI)
qed

subsection \<open>Vocabulary expansion\<close>

lemma generate_prepare_fails:
  assumes "prepare_model (load_checkpoint env) a vocabs = Inl e"
  shows "generate env a vocabs dataset w
           = (Some (if batch_size a \<le> 0 then ValueError else e), w)"
  using assms by (simp add: generate_def DataLoader_def)

text \<open>
  Claim C1 (as amended). Vocabulary expansion is disabled in \<^verbatim>\<open>prepare_model\<close>: its branch is
  \<^verbatim>\<open>pass\<close>. Whether or not expansion is requested, \<^verbatim>\<open>prepare_model\<close> never fails with
  VocabularyExpansionError and never swaps the embedding table or remaps a marker:
  whenever it returns, the model is the one constructed for the original vocabularies
  (one embedding row per word) and the vocabulary returned is the original one; without
  the request it does return when the checkpoint loads. It runs before the first batch:
  when it fails, \<^verbatim>\<open>generate\<close> ends with its error, no batch scored and no file
  written.
\<close>

theorem vocabulary_expansion_disabled:
  "prepare_model ld a vocabs \<noteq> Inl VocabularyExpansionError
   \<and> (\<forall>mdl v. prepare_model ld a vocabs = Inr (mdl, v)
         \<longrightarrow> v = vocabs ! 0
            \<and> mdl = RNNBasedJLU_init (args_hidden_dim a) (args_word_dim a)
                      (length (vocabs ! 0)) (length (vocabs ! 1)) (length (vocabs ! 2))
            \<and> emb_vocab_size (embeds mdl) = length (vocabs ! 0))
   \<and> (\<not> expand_vocab a \<and> 3 \<le> length vocabs
        \<and> ld (ckpt_path a)
             (RNNBasedJLU_init (args_hidden_dim a) (args_word_dim a)
                (length (vocabs ! 0)) (length (vocabs ! 1)) (length (vocabs ! 2)))
       \<longrightarrow> prepare_model ld a vocabs
             = Inr (RNNBasedJLU_init (args_hidden_dim a) (args_word_dim a)
                      (length (vocabs ! 0)) (length (vocabs ! 1)) (length (vocabs ! 2)),
                    vocabs ! 0))
   \<and> (\<forall>env e dataset w.
         load_checkpoint env = ld \<and> prepare_model ld a vocabs = Inl e
         \<longrightarrow> generate env a vocabs dataset w
               = (Some (if batch_size a \<le> 0 then ValueError else e), w))"
proof -
  have 1: "prepare_model ld a vocabs \<noteq> Inl VocabularyExpansionError"
    by (simp add: prepare_model_cases)
  have 2: "\<forall>mdl v. prepare_model ld a vocabs = Inr (mdl, v)
         \<longrightarrow> v = vocabs ! 0
            \<and> mdl = RNNBasedJLU_init (args_hidden_dim a) (args_word_dim a)
                      (length (vocabs ! 0)) (length (vocabs ! 1)) (length (vocabs ! 2))
            \<and> emb_vocab_size (embeds mdl) = length (vocabs ! 0)"
    by (auto simp: prepare_model_cases RNNBasedJLU_init_def split: if_splits)
  have 3: "\<not> expand_vocab a \<and> 3 \<le> length vocabs
        \<and> ld (ckpt_path a)
             (RNNBasedJLU_init (args_hidden_dim a) (args_word_dim a)
                (length (vocabs ! 0)) (length (vocabs ! 1)) (length (vocabs ! 2)))
       \<longrightarrow> prepare_model ld a vocabs
             = Inr (RNNBasedJLU_init (args_hidden_dim a) (args_word_dim a)
                      (length (vocabs ! 0)) (length (vocabs ! 1)) (length (vocabs ! 2)),
                    vocabs ! 0)"
    by (simp add: prepare_model_cases)
  have 4: "\<forall>env e dataset w.
         load_checkpoint env = ld \<and> prepare_model ld a vocabs = Inl e
         \<longrightarrow> generate env a vocabs dataset w
               = (Some (if batch_size a \<le> 0 then ValueError else e), w)"
    using generate_prepare_fails by blast
  from 1 2 3 4 show ?thesis by (intro conjI)
qed

theorem vocabulary_expansion_disabled_witness:
  "\<not> expand_vocab demo_args \<and> 3 \<le> length demo_vocabs
   \<and> prepare_model (\<lambda>path mdl. True) demo_args demo_vocabs
        = Inr (RNNBasedJLU_init 300 300 4 2 1, [''<unk>'', ''<bos>'', ''<eos>'', ''hello''])
   \<and> prepare_model (\<lambda>path mdl. False) demo_args demo_vocabs = Inl ModelLoadError
   \<and> generate (demo_env\<lparr> load_checkpoint := (\<lambda>path mdl. False) \<rparr>) demo_args demo_vocabs
        [''show'', ''flights''] demo_world = (Some ModelLoadError, demo_world)"
proof -
  have h1: "\<not> expand_vocab demo_args" by (simp add: demo_args_def)
  have h2: "3 \<le> length demo_vocabs" by (simp add: demo_vocabs_def)
  note c3 = vocabulary_expansion_disabled[of "\<lambda>path mdl. True" demo_args demo_vocabs,
      THEN conjunct2, THEN conjunct2, THEN conjunct1, rule_format]
  have "prepare_model (\<lambda>path mdl. True) demo_args demo_vocabs
        = Inr (RNNBasedJLU_init (args_hidden_dim demo_args) (args_word_dim demo_args)
                 (length (demo_vocabs ! 0)) (length (demo_vocabs ! 1)) (length (demo_vocabs ! 2)),
               demo_vocabs ! 0)"
    by (rule c3) (simp add: h1 h2)
  then have p1: "prepare_model (\<lambda>path mdl. True) demo_args demo_vocabs
        = Inr (RNNBasedJLU_init 300 300 4 2 1, [''<unk>'', ''<bos>'', ''<eos>'', ''hello''])"
    by (simp add: demo_args_def demo_vocabs_def eval_nat_numeral)
  have p2: "prepare_model (\<lambda>path mdl. False) demo_args demo_vocabs = Inl ModelLoadError"
    by (simp add: prepare_model_cases demo_vocabs_def)
  have l: "load_checkpoint (demo_env\<lparr> load_checkpoint := (\<lambda>path mdl. False) \<rparr>)
             = (\<lambda>path mdl. False)" by simp
  have b: "\<not> batch_size demo_args \<le> 0" by (simp add: demo_args_def)
  from vocabulary_expansion_disabled[of "\<lambda>path mdl. False" demo_args demo_vocabs] l p2
  have "generate (demo_env\<lparr> load_checkpoint := (\<lambda>path mdl. False) \<rparr>) demo_args demo_vocabs
          [''show'', ''flights''] demo_world
        = (Some (if batch_size demo_args \<le> 0 then ValueError else ModelLoadError), demo_world)"
    by blast
  with b have g: "generate (demo_env\<lparr> load_checkpoint := (\<lambda>path mdl. False) \<rparr>) demo_args demo_vocabs
        [''show'', ''flights''] demo_world = (Some ModelLoadError, demo_world)"
    by simp
  from h1 h2 p1 p2 g show ?thesis by (intro conjI)
qed

theorem vocabulary_expansion_counterexample:
  "expand_vocab (demo_args\<lparr> expand_vocab := True \<rparr>)
   \<and> unk demo_args \<notin> set ([[''<bos>'', ''<eos>'', ''hello''], [''O'', ''B''], [''greet'']] ! 0)
   \<and> prepare_model (\<lambda>path mdl. True) (demo_args\<lparr> expand_vocab := True \<rparr>)
        [[''<bos>'', ''<eos>'', ''hello''], [''O'', ''B''], [''greet'']] = Inl UnboundLocalError
   \<and> UnboundLocalError \<noteq> VocabularyExpansionError
   \<and> prepare_model (\<lambda>path mdl. True) (demo_args\<lparr> expand_vocab := True \<rparr>) demo_vocabs
        = Inl UnboundLocalError"
  by (simp add: prepare_model_cases demo_args_def demo_vocabs_def)

end